theory Spec2Isabelle
  imports Main
begin

section \<open>Outcomes of C++ calls\<close>

text \<open>
  A call either returns a result, or leaves by an exception, or does something the
  language leaves undefined (a failed \<^verbatim>\<open>assert\<close>, a read of storage that holds no
  object, a destructor run on storage that holds no object, a second release of a
  region). The state at the point of the \<^verbatim>\<open>throw\<close> is kept, since exception safety is a
  statement about it.
\<close>

datatype exn = bad_alloc | element_exception

datatype ('r, 's) outcome = Returns 'r 's | Throws exn 's | Fault

definition andThen :: "('r, 's) outcome \<Rightarrow> ('r \<Rightarrow> 's \<Rightarrow> ('q, 's) outcome) \<Rightarrow> ('q, 's) outcome" where
  "andThen m f = (case m of Returns r s \<Rightarrow> f r s | Throws e s \<Rightarrow> Throws e s | Fault \<Rightarrow> Fault)"

text \<open>\<^verbatim>\<open>try { m } catch (...) { handler; throw; }\<close>\<close>

definition catch_rethrow :: "('r, 's) outcome \<Rightarrow> ('s \<Rightarrow> (unit, 's) outcome) \<Rightarrow> ('r, 's) outcome" where
  "catch_rethrow m handler =
     (case m of
        Returns r s \<Rightarrow> Returns r s
      | Throws e s \<Rightarrow> andThen (handler s) (\<lambda>_. Throws e)
      | Fault \<Rightarrow> Fault)"

text \<open>\<^verbatim>\<open>assert(b)\<close>, and every other precondition whose violation is undefined behaviour.\<close>

definition check :: "bool \<Rightarrow> 'r \<Rightarrow> 's \<Rightarrow> ('r, 's) outcome" where
  "check b r s = (if b then Returns r s else Fault)"

text \<open>A call that works on the heap only, made from a method whose state is the object and the heap.\<close>

definition on_heap :: "('h \<Rightarrow> ('r, 'h) outcome) \<Rightarrow> 'v \<times> 'h \<Rightarrow> ('r, 'v \<times> 'h) outcome" where
  "on_heap f s =
     (case f (snd s) of
        Returns r h \<Rightarrow> Returns r (fst s, h)
      | Throws e h \<Rightarrow> Throws e (fst s, h)
      | Fault \<Rightarrow> Fault)"

section \<open>The free store\<close>

text \<open>
  A region obtained from \<^verbatim>\<open>operator new\<close> is a list of slots for objects of the element
  type: \<open>None\<close> is raw storage, \<open>Some x\<close> a live object of value \<open>x\<close>. Regions are numbered
  in the order of their allocation and a released region stays in the list as \<open>None\<close>, so
  that no address is used twice. \<open>avail\<close> is the memory left, counted in objects of the
  element type; \<open>delete_calls\<close> records every call of \<^verbatim>\<open>operator delete\<close> with its
  argument; \<open>leaked\<close> counts the objects whose storage was released while they were alive.
\<close>

type_synonym addr = nat

type_synonym 'a block = "'a option list"

record 'a heap =
  blocks :: "'a block option list"
  avail :: nat
  delete_calls :: "addr option list"
  leaked :: nat

text \<open>A \<^verbatim>\<open>T*\<close>: the region (\<open>None\<close> for the null pointer) and the offset in it.\<close>

type_synonym ptr = "addr option \<times> nat"

definition ptr_add :: "ptr \<Rightarrow> nat \<Rightarrow> ptr" where
  "ptr_add p k = (fst p, snd p + k)"

text \<open>Every use below is guarded by a check that the offset is at least \<open>k\<close>.\<close>

definition ptr_sub :: "ptr \<Rightarrow> nat \<Rightarrow> ptr" where
  "ptr_sub p k = (fst p, snd p - k)"

text \<open>
  What is at a pointer: \<open>None\<close> when it points at no storage (null, released, past the
  region), \<open>Some None\<close> at raw storage, \<open>Some (Some x)\<close> at a live object.
\<close>

definition slot :: "'a heap \<Rightarrow> ptr \<Rightarrow> 'a option option" where
  "slot h p =
     (case fst p of
        None \<Rightarrow> None
      | Some a \<Rightarrow>
          if a < length (blocks h) then
            (case blocks h ! a of
               None \<Rightarrow> None
             | Some blk \<Rightarrow> if snd p < length blk then Some (blk ! snd p) else None)
          else None)"

definition put :: "ptr \<Rightarrow> 'a option \<Rightarrow> 'a heap \<Rightarrow> 'a heap" where
  "put p v h =
     (case fst p of
        None \<Rightarrow> h
      | Some a \<Rightarrow> h\<lparr>blocks := (blocks h)[a := map_option (\<lambda>blk. blk[snd p := v]) (blocks h ! a)]\<rparr>)"

text \<open>
  \<^verbatim>\<open>size_t\<close> has 64 bits, and a product of two of its values is taken modulo \<open>2^64\<close>.
  This matters for the byte count of an allocation, which is computed from a number
  that the caller chooses. The sizes and capacities of a vector are kept as natural
  numbers below: the only other arithmetic on them that could leave the range is
  \<^verbatim>\<open>size_ * 2\<close> and \<^verbatim>\<open>size_ + 1\<close> on the number of objects that are alive in a
  region, and no address space has room for \<open>2^63\<close> objects.
\<close>

definition size_t_mul :: "nat \<Rightarrow> nat \<Rightarrow> nat" where
  "size_t_mul a b = (a * b) mod 2 ^ 64"

text \<open>
  \<^verbatim>\<open>operator new(count)\<close>: a fresh region of \<open>count\<close> bytes, or \<^verbatim>\<open>std::bad_alloc\<close>.
  The caller casts the result to \<^verbatim>\<open>T*\<close>, so the region is seen as the slots for
  objects of \<open>object_size\<close> bytes that fit into it. A request for no bytes at all gives a
  region without a slot, and not the null pointer.
\<close>

definition operator_new :: "nat \<Rightarrow> nat \<Rightarrow> 'a heap \<Rightarrow> (addr option, 'a heap) outcome" where
  "operator_new object_size count h =
     (if avail h < count div object_size then Throws bad_alloc h
      else Returns (Some (length (blocks h)))
             (h\<lparr>blocks := blocks h @ [Some (replicate (count div object_size) None)],
                avail := avail h - count div object_size\<rparr>))"

text \<open>\<^verbatim>\<open>operator delete(p)\<close>: the standard makes it a no-op on the null pointer.\<close>

definition operator_delete :: "addr option \<Rightarrow> 'a heap \<Rightarrow> (unit, 'a heap) outcome" where
  "operator_delete p h0 =
     (let h = h0\<lparr>delete_calls := delete_calls h0 @ [p]\<rparr> in
      case p of
        None \<Rightarrow> Returns () h
      | Some a \<Rightarrow>
          if a < length (blocks h) then
            (case blocks h ! a of
               None \<Rightarrow> Fault
             | Some blk \<Rightarrow>
                 Returns ()
                   (h\<lparr>blocks := (blocks h)[a := None],
                      avail := avail h + length blk,
                      leaked := leaked h + length (filter (\<lambda>s. s \<noteq> None) blk)\<rparr>))
          else Fault)"

text \<open>Placement new of a given value, a destructor call, a read and a write of a live object.\<close>

definition construct_at :: "ptr \<Rightarrow> 'a \<Rightarrow> 'a heap \<Rightarrow> (ptr, 'a heap) outcome" where
  "construct_at p x h = (case slot h p of Some None \<Rightarrow> Returns p (put p (Some x) h) | _ \<Rightarrow> Fault)"

definition destroy_at :: "ptr \<Rightarrow> 'a heap \<Rightarrow> (unit, 'a heap) outcome" where
  "destroy_at p h = (case slot h p of Some (Some x) \<Rightarrow> Returns () (put p None h) | _ \<Rightarrow> Fault)"

definition read_at :: "ptr \<Rightarrow> 'a heap \<Rightarrow> ('a, 'a heap) outcome" where
  "read_at p h = (case slot h p of Some (Some x) \<Rightarrow> Returns x h | _ \<Rightarrow> Fault)"

definition write_at :: "ptr \<Rightarrow> 'a \<Rightarrow> 'a heap \<Rightarrow> (unit, 'a heap) outcome" where
  "write_at p x h = (case slot h p of Some (Some y) \<Rightarrow> Returns () (put p (Some x) h) | _ \<Rightarrow> Fault)"

section \<open>The element type\<close>

text \<open>
  The template parameter \<^verbatim>\<open>T\<close> is a value type: a copy has the value of its source, a
  move gives the target the value of the source and leaves the source at \<open>moved_from\<close> of
  it. Each special member is either \<^verbatim>\<open>noexcept\<close> or throws on the values of its
  source that a predicate picks; the copy constructor may be absent. A member that
  throws leaves its source and its target as they were. Destructors do not throw, as
  the standard library requires of the elements of a container. The traits that the
  container asks for are read off this description. \<open>sizeof\<close> is the size of an
  object in bytes, which is at least 1 for every type of the language.
\<close>

datatype 'a throwing = Noexcept | MayThrow "'a \<Rightarrow> bool"

fun throws :: "'a throwing \<Rightarrow> 'a \<Rightarrow> bool" where
  "throws Noexcept x = False"
| "throws (MayThrow P) x = P x"

record 'a element_type =
  sizeof :: nat
  copy_ctor :: "'a throwing option"
  move_ctor :: "'a throwing"
  move_assign :: "'a throwing"
  moved_from :: "'a \<Rightarrow> 'a"

definition is_nothrow_move_constructible :: "'a element_type \<Rightarrow> bool" where
  "is_nothrow_move_constructible T = (case move_ctor T of Noexcept \<Rightarrow> True | MayThrow P \<Rightarrow> False)"

definition is_copy_constructible :: "'a element_type \<Rightarrow> bool" where
  "is_copy_constructible T = (case copy_ctor T of None \<Rightarrow> False | Some c \<Rightarrow> True)"

definition is_nothrow_move_assignable :: "'a element_type \<Rightarrow> bool" where
  "is_nothrow_move_assignable T = (case move_assign T of Noexcept \<Rightarrow> True | MayThrow P \<Rightarrow> False)"

text \<open>
  The arguments of a constructor call \<^verbatim>\<open>T(std::forward<Args>(args)...)\<close>:
  a \<^verbatim>\<open>const T&\<close> to an object in the free store, such as \<^verbatim>\<open>v[i]\<close>;
  a \<^verbatim>\<open>const T&\<close> or a \<^verbatim>\<open>T&&\<close> to an object elsewhere, of the given value;
  or the arguments of another constructor, which builds the given value or throws.
\<close>

datatype 'a args = CopyOf ptr | CopyVal 'a | MoveVal 'a | Ctor "'a option"

text \<open>The copy constructor run on a source of value \<open>x\<close>. A type without one does not compile here.\<close>

definition copy_value :: "'a element_type \<Rightarrow> 'a \<Rightarrow> 'a heap \<Rightarrow> ('a, 'a heap) outcome" where
  "copy_value T x h =
     (case copy_ctor T of
        None \<Rightarrow> Fault
      | Some c \<Rightarrow> if throws c x then Throws element_exception h else Returns x h)"

text \<open>The value that the constructor gives the new object, or the exception that it throws.\<close>

fun initial_value :: "'a element_type \<Rightarrow> 'a args \<Rightarrow> 'a heap \<Rightarrow> ('a, 'a heap) outcome" where
  "initial_value T (CopyOf src) h = andThen (read_at src h) (copy_value T)"
| "initial_value T (CopyVal x) h = copy_value T x h"
| "initial_value T (MoveVal x) h =
     (if throws (move_ctor T) x then Throws element_exception h else Returns x h)"
| "initial_value T (Ctor None) h = Throws element_exception h"
| "initial_value T (Ctor (Some x)) h = Returns x h"

text \<open>\<^verbatim>\<open>new (dst) T(std::forward<Args>(args)...)\<close>\<close>

definition construct :: "'a element_type \<Rightarrow> ptr \<Rightarrow> 'a args \<Rightarrow> 'a heap \<Rightarrow> (ptr, 'a heap) outcome" where
  "construct T dst a h = andThen (initial_value T a h) (construct_at dst)"

text \<open>\<^verbatim>\<open>new (dst) T(std::move(*src))\<close>\<close>

definition move_construct :: "'a element_type \<Rightarrow> ptr \<Rightarrow> ptr \<Rightarrow> 'a heap \<Rightarrow> (ptr, 'a heap) outcome" where
  "move_construct T dst src h =
     andThen (read_at src h) (\<lambda>x h1.
       if throws (move_ctor T) x then Throws element_exception h1
       else andThen (construct_at dst x h1) (\<lambda>p h2.
              andThen (write_at src (moved_from T x) h2) (\<lambda>_. Returns p)))"

text \<open>\<^verbatim>\<open>*dst = std::move(temp)\<close> for a local object \<open>temp\<close> of value \<open>x\<close>\<close>

definition move_assign_value :: "'a element_type \<Rightarrow> ptr \<Rightarrow> 'a \<Rightarrow> 'a heap \<Rightarrow> (unit, 'a heap) outcome" where
  "move_assign_value T dst x h =
     andThen (read_at dst h) (\<lambda>_ h1.
       if throws (move_assign T) x then Throws element_exception h1 else write_at dst x h1)"

text \<open>\<^verbatim>\<open>*dst = std::move(*src)\<close>\<close>

definition move_assign_at :: "'a element_type \<Rightarrow> ptr \<Rightarrow> ptr \<Rightarrow> 'a heap \<Rightarrow> (unit, 'a heap) outcome" where
  "move_assign_at T dst src h =
     andThen (read_at src h) (\<lambda>x h1.
       andThen (move_assign_value T dst x h1) (\<lambda>_. write_at src (moved_from T x)))"

section \<open>The algorithms of the standard library that the container calls\<close>

text \<open>\<^verbatim>\<open>std::destroy_n(first, n)\<close>\<close>

primrec destroy_n :: "ptr \<Rightarrow> nat \<Rightarrow> 'a heap \<Rightarrow> (unit, 'a heap) outcome" where
  "destroy_n first 0 h = Returns () h"
| "destroy_n first (Suc n) h = andThen (destroy_n first n h) (\<lambda>_. destroy_at (ptr_add first n))"

text \<open>
  \<^verbatim>\<open>std::uninitialized_copy_n(first, n, d_first)\<close>: when a copy throws, the objects
  already built in the target are destroyed and the exception goes on.
\<close>

primrec uninitialized_copy_n :: "'a element_type \<Rightarrow> ptr \<Rightarrow> nat \<Rightarrow> ptr \<Rightarrow> 'a heap \<Rightarrow> (ptr, 'a heap) outcome" where
  "uninitialized_copy_n T first 0 d_first h = Returns d_first h"
| "uninitialized_copy_n T first (Suc n) d_first h =
     andThen (uninitialized_copy_n T first n d_first h) (\<lambda>_ h1.
       andThen (catch_rethrow (construct T (ptr_add d_first n) (CopyOf (ptr_add first n)) h1)
                  (destroy_n d_first n))
         (\<lambda>_. Returns (ptr_add d_first (Suc n))))"

text \<open>\<^verbatim>\<open>std::uninitialized_move_n(first, n, d_first)\<close>, with the same clean-up.\<close>

primrec uninitialized_move_n :: "'a element_type \<Rightarrow> ptr \<Rightarrow> nat \<Rightarrow> ptr \<Rightarrow> 'a heap \<Rightarrow> (ptr, 'a heap) outcome" where
  "uninitialized_move_n T first 0 d_first h = Returns d_first h"
| "uninitialized_move_n T first (Suc n) d_first h =
     andThen (uninitialized_move_n T first n d_first h) (\<lambda>_ h1.
       andThen (catch_rethrow (move_construct T (ptr_add d_first n) (ptr_add first n) h1)
                  (destroy_n d_first n))
         (\<lambda>_. Returns (ptr_add d_first (Suc n))))"

text \<open>\<^verbatim>\<open>std::move(first, first + n, d_first)\<close>: move assignment, lowest index first.\<close>

primrec std_move :: "'a element_type \<Rightarrow> ptr \<Rightarrow> nat \<Rightarrow> ptr \<Rightarrow> 'a heap \<Rightarrow> (ptr, 'a heap) outcome" where
  "std_move T first 0 d_first h = Returns d_first h"
| "std_move T first (Suc n) d_first h =
     andThen (std_move T first n d_first h) (\<lambda>_ h1.
       andThen (move_assign_at T (ptr_add d_first n) (ptr_add first n) h1)
         (\<lambda>_. Returns (ptr_add d_first (Suc n))))"

text \<open>\<^verbatim>\<open>std::move_backward(first, first + n, d_last)\<close>: move assignment, highest index first.\<close>

fun std_move_backward :: "'a element_type \<Rightarrow> ptr \<Rightarrow> nat \<Rightarrow> ptr \<Rightarrow> 'a heap \<Rightarrow> (ptr, 'a heap) outcome" where
  "std_move_backward T first 0 d_last h = Returns d_last h"
| "std_move_backward T first (Suc n) d_last h =
     andThen (check (0 < snd d_last) () h) (\<lambda>_ h1.
       andThen (move_assign_at T (ptr_sub d_last 1) (ptr_add first n) h1)
         (\<lambda>_. std_move_backward T first n (ptr_sub d_last 1)))"

section \<open>RawMemory\<close>

record RawMemory =
  m_buffer :: "addr option"
  m_capacity :: nat

text \<open>
  \<^verbatim>\<open>Allocate(n)\<close>: the byte count \<^verbatim>\<open>n * sizeof(T)\<close> is a product in \<^verbatim>\<open>size_t\<close>,
  so for a large \<open>n\<close> the region can have fewer slots than \<open>n\<close>.
\<close>

definition Allocate :: "'a element_type \<Rightarrow> nat \<Rightarrow> 'a heap \<Rightarrow> (addr option, 'a heap) outcome" where
  "Allocate T n h =
     (if n \<noteq> 0 then operator_new (sizeof T) (size_t_mul n (sizeof T)) h else Returns None h)"

definition Deallocate :: "addr option \<Rightarrow> 'a heap \<Rightarrow> (unit, 'a heap) outcome" where
  "Deallocate buf h = operator_delete buf h"

text \<open>The default constructor, and \<^verbatim>\<open>RawMemory(size_t capacity)\<close>.\<close>

definition RawMemory_default :: RawMemory where
  "RawMemory_default = \<lparr>m_buffer = None, m_capacity = 0\<rparr>"

definition RawMemory_ctor :: "'a element_type \<Rightarrow> nat \<Rightarrow> 'a heap \<Rightarrow> (RawMemory, 'a heap) outcome" where
  "RawMemory_ctor T capacity h =
     andThen (Allocate T capacity h) (\<lambda>b. Returns \<lparr>m_buffer = b, m_capacity = capacity\<rparr>)"

text \<open>\<^verbatim>\<open>~RawMemory()\<close>\<close>

definition RawMemory_dtor :: "RawMemory \<Rightarrow> 'a heap \<Rightarrow> (unit, 'a heap) outcome" where
  "RawMemory_dtor m h = Deallocate (m_buffer m) h"

definition GetAddress :: "RawMemory \<Rightarrow> ptr" where
  "GetAddress m = (m_buffer m, 0)"

text \<open>\<^verbatim>\<open>operator+\<close> and \<^verbatim>\<open>operator[]\<close>, each with its \<^verbatim>\<open>assert\<close>; the latter returns a reference.\<close>

definition RawMemory_plus :: "RawMemory \<Rightarrow> nat \<Rightarrow> 's \<Rightarrow> (ptr, 's) outcome" where
  "RawMemory_plus m offset s = check (offset \<le> m_capacity m) (ptr_add (GetAddress m) offset) s"

definition RawMemory_index :: "RawMemory \<Rightarrow> nat \<Rightarrow> 's \<Rightarrow> (ptr, 's) outcome" where
  "RawMemory_index m index s = check (index < m_capacity m) (ptr_add (GetAddress m) index) s"

definition RawMemory_Swap :: "RawMemory \<Rightarrow> RawMemory \<Rightarrow> RawMemory \<times> RawMemory" where
  "RawMemory_Swap m other =
     (m\<lparr>m_buffer := m_buffer other, m_capacity := m_capacity other\<rparr>,
      other\<lparr>m_buffer := m_buffer m, m_capacity := m_capacity m\<rparr>)"

section \<open>Vector\<close>

record Vector =
  m_data :: RawMemory
  m_size :: nat

definition Vector_default :: Vector where
  "Vector_default = \<lparr>m_data = RawMemory_default, m_size = 0\<rparr>"

definition Vector_begin :: "Vector \<Rightarrow> ptr" where
  "Vector_begin v = GetAddress (m_data v)"

definition Vector_end :: "Vector \<Rightarrow> ptr" where
  "Vector_end v = ptr_add (GetAddress (m_data v)) (m_size v)"

definition Size :: "Vector \<Rightarrow> nat" where
  "Size v = m_size v"

definition Capacity :: "Vector \<Rightarrow> nat" where
  "Capacity v = m_capacity (m_data v)"

text \<open>\<^verbatim>\<open>Swap\<close> of two vectors: the pair of the two objects afterwards.\<close>

definition Swap :: "Vector \<Rightarrow> Vector \<Rightarrow> 'h \<Rightarrow> (unit, (Vector \<times> Vector) \<times> 'h) outcome" where
  "Swap v other h =
     (let (d, od) = RawMemory_Swap (m_data v) (m_data other) in
      Returns () ((\<lparr>m_data = d, m_size = m_size other\<rparr>, \<lparr>m_data = od, m_size = m_size v\<rparr>), h))"

text \<open>\<^verbatim>\<open>operator[]\<close>: a reference to the element.\<close>

definition Vector_index :: "Vector \<Rightarrow> nat \<Rightarrow> 's \<Rightarrow> (ptr, 's) outcome" where
  "Vector_index v index s =
     andThen (check (index < m_size v) () s) (\<lambda>_. RawMemory_index (m_data v) index)"

text \<open>The condition of the \<^verbatim>\<open>if constexpr\<close> in \<^verbatim>\<open>TransferAndSwap\<close> and in \<^verbatim>\<open>Emplace\<close>.\<close>

definition relocate_by_move :: "'a element_type \<Rightarrow> bool" where
  "relocate_by_move T \<longleftrightarrow> is_nothrow_move_constructible T \<or> \<not> is_copy_constructible T"

text \<open>
  The destructor of the local \<^verbatim>\<open>new_data\<close>, run while an exception leaves its scope.
\<close>

definition unwinding :: "RawMemory \<Rightarrow> ('r, Vector \<times> 'a heap) outcome \<Rightarrow> ('r, Vector \<times> 'a heap) outcome" where
  "unwinding new_data body = catch_rethrow body (on_heap (RawMemory_dtor new_data))"

text \<open>\<^verbatim>\<open>TransferAndSwap(new_data)\<close>: the result is \<^verbatim>\<open>new_data\<close> after the call.\<close>

definition TransferAndSwap :: "'a element_type \<Rightarrow> RawMemory \<Rightarrow> Vector \<times> 'a heap \<Rightarrow> (RawMemory, Vector \<times> 'a heap) outcome" where
  "TransferAndSwap T new_data s =
     andThen
       (if relocate_by_move T
        then on_heap (uninitialized_move_n T (Vector_begin (fst s)) (m_size (fst s)) (GetAddress new_data)) s
        else on_heap (uninitialized_copy_n T (Vector_begin (fst s)) (m_size (fst s)) (GetAddress new_data)) s)
       (\<lambda>_ (v1, h1).
          andThen (on_heap (destroy_n (Vector_begin v1) (m_size v1)) (v1, h1)) (\<lambda>_ (v2, h2).
            let (d, nd) = RawMemory_Swap (m_data v2) new_data in Returns nd (v2\<lparr>m_data := d\<rparr>, h2)))"

definition Reserve :: "'a element_type \<Rightarrow> nat \<Rightarrow> Vector \<times> 'a heap \<Rightarrow> (unit, Vector \<times> 'a heap) outcome" where
  "Reserve T new_capacity s =
     (if new_capacity \<le> m_capacity (m_data (fst s)) then Returns () s
      else
        andThen (on_heap (RawMemory_ctor T new_capacity) s) (\<lambda>new_data s1.
          andThen (unwinding new_data (TransferAndSwap T new_data s1))
            (\<lambda>new_data1. on_heap (RawMemory_dtor new_data1))))"

text \<open>\<^verbatim>\<open>EmplaceBack(args...)\<close>: the result is the reference that it returns.\<close>

definition EmplaceBack :: "'a element_type \<Rightarrow> 'a args \<Rightarrow> Vector \<times> 'a heap \<Rightarrow> (ptr, Vector \<times> 'a heap) outcome" where
  "EmplaceBack T a s =
     andThen
       (if m_size (fst s) = Capacity (fst s) then
          andThen (on_heap (RawMemory_ctor T (if m_size (fst s) = 0 then 1 else m_size (fst s) * 2)) s)
            (\<lambda>new_data (v1, h1).
               andThen
                 (unwinding new_data
                    (andThen (RawMemory_plus new_data (m_size v1) (v1, h1)) (\<lambda>p s2.
                       andThen (on_heap (construct T p a) s2) (\<lambda>_ s3.
                         catch_rethrow (TransferAndSwap T new_data s3)
                           (\<lambda>(v4, h4).
                              on_heap (destroy_n (ptr_add (GetAddress new_data) (m_size v4)) 1) (v4, h4))))))
                 (\<lambda>new_data1. on_heap (RawMemory_dtor new_data1)))
        else
          andThen (RawMemory_plus (m_data (fst s)) (m_size (fst s)) s) (\<lambda>p s1.
            andThen (on_heap (construct T p a) s1) (\<lambda>_. Returns ())))
       (\<lambda>_ (v5, h5).
          let v6 = v5\<lparr>m_size := m_size v5 + 1\<rparr>
          in RawMemory_index (m_data v6) (m_size v6 - 1) (v6, h5))"

text \<open>\<^verbatim>\<open>PushBack(const T&)\<close> and \<^verbatim>\<open>PushBack(T&&)\<close>\<close>

definition PushBack :: "'a element_type \<Rightarrow> 'a args \<Rightarrow> Vector \<times> 'a heap \<Rightarrow> (unit, Vector \<times> 'a heap) outcome" where
  "PushBack T val s = andThen (EmplaceBack T val s) (\<lambda>_. Returns ())"

definition PopBack :: "Vector \<times> 'a heap \<Rightarrow> (unit, Vector \<times> 'a heap) outcome" where
  "PopBack s =
     andThen (check (0 < m_size (fst s)) () s) (\<lambda>_ (v1, h1).
       andThen (RawMemory_plus (m_data v1) (m_size v1) (v1, h1)) (\<lambda>p s2.
         andThen (on_heap (destroy_n (ptr_sub p 1) 1) s2) (\<lambda>_ (v3, h3).
           Returns () (v3\<lparr>m_size := m_size v3 - 1\<rparr>, h3))))"

text \<open>
  \<^verbatim>\<open>Emplace(pos, args...)\<close>: the result is the iterator that it returns. The iterator
  \<^verbatim>\<open>pos\<close> has to point into \<^verbatim>\<open>[begin(), end()]\<close> for \<^verbatim>\<open>pos - begin()\<close> and the
  ranges computed from it to be defined.
\<close>

definition Emplace :: "'a element_type \<Rightarrow> ptr \<Rightarrow> 'a args \<Rightarrow> Vector \<times> 'a heap \<Rightarrow> (ptr, Vector \<times> 'a heap) outcome" where
  "Emplace T pos a s =
     andThen
       (check (fst pos = fst (Vector_begin (fst s)) \<and> snd (Vector_begin (fst s)) \<le> snd pos
                 \<and> snd pos \<le> snd (Vector_end (fst s)))
          (snd pos - snd (Vector_begin (fst s))) s)
       (\<lambda>num_position (v0, h0).
          andThen
            (if m_size v0 = Capacity v0 then
               andThen (on_heap (RawMemory_ctor T (if m_size v0 = 0 then 1 else m_size v0 * 2)) (v0, h0))
                 (\<lambda>new_data (v1, h1).
                    andThen
                      (unwinding new_data
                         (andThen (RawMemory_plus new_data num_position (v1, h1)) (\<lambda>p s2.
                            andThen (on_heap (construct T p a) s2) (\<lambda>_ (v3, h3).
                              andThen
                                (if relocate_by_move T then
                                   andThen (on_heap (uninitialized_move_n T (Vector_begin v3) num_position
                                                       (GetAddress new_data)) (v3, h3)) (\<lambda>_ (v4, h4).
                                     andThen (RawMemory_plus new_data num_position (v4, h4)) (\<lambda>q.
                                       on_heap (uninitialized_move_n T (ptr_add (Vector_begin v4) num_position)
                                                  (m_size v4 - num_position) (ptr_add q 1))))
                                 else
                                   catch_rethrow
                                     (andThen (on_heap (uninitialized_copy_n T (Vector_begin v3) num_position
                                                          (GetAddress new_data)) (v3, h3)) (\<lambda>_ (v4, h4).
                                        andThen (RawMemory_plus new_data num_position (v4, h4)) (\<lambda>q.
                                          on_heap (uninitialized_copy_n T (ptr_add (Vector_begin v4) num_position)
                                                     (m_size v4 - num_position) (ptr_add q 1)))))
                                     (on_heap (destroy_n (GetAddress new_data) (num_position + 1))))
                                (\<lambda>_ (v5, h5).
                                   andThen (on_heap (destroy_n (Vector_begin v5) (m_size v5)) (v5, h5))
                                     (\<lambda>_ (v6, h6).
                                        let (d, nd) = RawMemory_Swap (m_data v6) new_data
                                        in Returns nd (v6\<lparr>m_data := d\<rparr>, h6)))))))
                      (\<lambda>new_data1. on_heap (RawMemory_dtor new_data1)))
             else if pos = Vector_end v0 then
               andThen (on_heap (construct T (Vector_end v0) a) (v0, h0)) (\<lambda>_. Returns ())
             else
               andThen (on_heap (initial_value T a) (v0, h0)) (\<lambda>temp (v1, h1).
                 andThen (RawMemory_index (m_data v1) (m_size v1 - 1) (v1, h1)) (\<lambda>last (v2, h2).
                   andThen (on_heap (move_construct T (Vector_end v2) last) (v2, h2)) (\<lambda>_ s3.
                     catch_rethrow
                       (andThen (on_heap (std_move_backward T (ptr_add (Vector_begin (fst s3)) num_position)
                                            (m_size (fst s3) - 1 - num_position) (Vector_end (fst s3))) s3)
                          (\<lambda>_ (v4, h4).
                             on_heap (move_assign_value T (ptr_add (Vector_begin v4) num_position) temp) (v4, h4)))
                       (\<lambda>(v5, h5). on_heap (destroy_n (Vector_end v5) 1) (v5, h5))))))
            (\<lambda>_ (v7, h7).
               let v8 = v7\<lparr>m_size := m_size v7 + 1\<rparr>
               in RawMemory_plus (m_data v8) num_position (v8, h7)))"

text \<open>\<^verbatim>\<open>Insert(pos, const T&)\<close> and \<^verbatim>\<open>Insert(pos, T&&)\<close>\<close>

definition Insert :: "'a element_type \<Rightarrow> ptr \<Rightarrow> 'a args \<Rightarrow> Vector \<times> 'a heap \<Rightarrow> (ptr, Vector \<times> 'a heap) outcome" where
  "Insert T pos val s = Emplace T pos val s"

text \<open>\<^verbatim>\<open>Erase(pos)\<close>: the result is the iterator that it returns.\<close>

definition Erase :: "'a element_type \<Rightarrow> ptr \<Rightarrow> Vector \<times> 'a heap \<Rightarrow> (ptr, Vector \<times> 'a heap) outcome" where
  "Erase T pos s =
     andThen
       (check (fst pos = fst (Vector_begin (fst s)) \<and> snd (Vector_begin (fst s)) \<le> snd pos
                 \<and> snd pos < snd (Vector_end (fst s)))
          (snd pos - snd (Vector_begin (fst s))) s)
       (\<lambda>num_position (v0, h0).
          if pos = Vector_end v0 then
            andThen (PopBack (v0, h0)) (\<lambda>_ (v1, h1). Returns (Vector_end v1) (v1, h1))
          else
            andThen (on_heap (std_move T (ptr_add (ptr_add (Vector_begin v0) num_position) 1)
                                (m_size v0 - (num_position + 1))
                                (ptr_add (Vector_begin v0) num_position)) (v0, h0)) (\<lambda>_ s1.
              andThen (PopBack s1) (\<lambda>_ (v2, h2).
                Returns (ptr_add (Vector_begin v2) num_position) (v2, h2))))"

section \<open>Sequences of calls\<close>

text \<open>
  A caller that pushes and pops: \<open>run\<close> makes the calls in order, stops at the first
  one that does not return, and reports the capacity seen after each call.
\<close>

datatype 'a operation = Push "'a args" | Pop

fun apply_operation :: "'a element_type \<Rightarrow> 'a operation \<Rightarrow> Vector \<times> 'a heap \<Rightarrow> (unit, Vector \<times> 'a heap) outcome" where
  "apply_operation T (Push val) s = PushBack T val s"
| "apply_operation T Pop s = PopBack s"

fun run :: "'a element_type \<Rightarrow> 'a operation list \<Rightarrow> Vector \<times> 'a heap \<Rightarrow> (nat list, Vector \<times> 'a heap) outcome" where
  "run T [] s = Returns [] s"
| "run T (c # cs) s =
     andThen (apply_operation T c s) (\<lambda>_ s1.
       andThen (run T cs s1) (\<lambda>caps. Returns (Capacity (fst s1) # caps)))"

fun is_push :: "'a operation \<Rightarrow> bool" where
  "is_push (Push val) = True"
| "is_push Pop = False"

section \<open>Element types and a heap for the examples\<close>

text \<open>
  \<open>plain\<close> is a type like \<^verbatim>\<open>int\<close>: no special member throws and a moved-from object
  keeps its value. \<open>emptied\<close> is a type like \<^verbatim>\<open>std::string\<close>: its move operations are
  \<^verbatim>\<open>noexcept\<close> and leave the source empty, its copy constructor is not \<^verbatim>\<open>noexcept\<close>
  (and does not throw here). \<open>fragile\<close> is a test type with a copy constructor and a
  copy assignment only, both of which throw on the value 7: moving it is copying it,
  and \<^verbatim>\<open>std::is_nothrow_move_constructible_v\<close> is false. Their sizes are those of
  \<^verbatim>\<open>int\<close> and of \<^verbatim>\<open>std::string\<close> on the usual 64-bit platforms.
\<close>

definition plain :: "nat element_type" where
  "plain = \<lparr>sizeof = 4, copy_ctor = Some Noexcept, move_ctor = Noexcept, move_assign = Noexcept,
            moved_from = (\<lambda>x. x)\<rparr>"

definition emptied :: "string element_type" where
  "emptied = \<lparr>sizeof = 32, copy_ctor = Some (MayThrow (\<lambda>x. False)), move_ctor = Noexcept, move_assign = Noexcept,
              moved_from = (\<lambda>x. [])\<rparr>"

definition fragile :: "nat element_type" where
  "fragile = \<lparr>sizeof = 4, copy_ctor = Some (MayThrow (\<lambda>x. x = 7)), move_ctor = MayThrow (\<lambda>x. x = 7),
              move_assign = MayThrow (\<lambda>x. x = 7), moved_from = (\<lambda>x. x)\<rparr>"

text \<open>A free store with nothing allocated and room for 64 objects.\<close>

definition fresh_heap :: "'a heap" where
  "fresh_heap = \<lparr>blocks = [], avail = 64, delete_calls = [], leaked = 0\<rparr>"

section \<open>What a vector holds\<close>

text \<open>
  The vector \<open>v\<close> holds the list \<open>xs\<close> in the heap \<open>h\<close>: its size is the length of \<open>xs\<close>,
  its region has as many slots as its capacity says, the first of them are the live
  objects \<open>xs\<close> and the others are raw. With capacity 0 there is no region.
\<close>

definition holds :: "Vector \<Rightarrow> 'a heap \<Rightarrow> 'a list \<Rightarrow> bool" where
  "holds v h xs \<longleftrightarrow>
     m_size v = length xs \<and> length xs \<le> Capacity v \<and>
     (case m_buffer (m_data v) of
        None \<Rightarrow> Capacity v = 0
      | Some a \<Rightarrow> 0 < Capacity v \<and> a < length (blocks h) \<and>
          blocks h ! a = Some (map Some xs @ replicate (Capacity v - length xs) None))"

section \<open>Calls that complete\<close>

text \<open>
  The allocation of a region for \<open>n\<close> objects goes through and gives room for all of
  them: the byte count \<^verbatim>\<open>n * sizeof(T)\<close> does not wrap in \<^verbatim>\<open>size_t\<close>, and the free
  store has that much left.
\<close>

definition allocation_succeeds :: "'a element_type \<Rightarrow> nat \<Rightarrow> 'a heap \<Rightarrow> bool" where
  "allocation_succeeds T n h \<longleftrightarrow> 0 < sizeof T \<and> n * sizeof T < 2 ^ 64 \<and> n \<le> avail h"

text \<open>
  Relocation of the elements \<open>xs\<close> into a new region goes through: the constructor that
  the container picks (move when it cannot throw or when there is no copy, else copy)
  throws on none of them.
\<close>

definition relocation_succeeds :: "'a element_type \<Rightarrow> 'a list \<Rightarrow> bool" where
  "relocation_succeeds T xs =
     (if relocate_by_move T then list_all (\<lambda>x. \<not> throws (move_ctor T) x) xs
      else (case copy_ctor T of
              None \<Rightarrow> False
            | Some c \<Rightarrow> list_all (\<lambda>x. \<not> throws c x) xs))"

text \<open>
  Insertion of \<open>x\<close> at offset \<open>p\<close> into spare capacity goes through: at the end nothing
  is moved; elsewhere the move construction of the last element, the move assignments
  of the elements from \<open>p\<close> to the last but one, and the move assignment of the
  temporary \<open>x\<close> do not throw.
\<close>

definition in_place_succeeds :: "'a element_type \<Rightarrow> 'a list \<Rightarrow> nat \<Rightarrow> 'a \<Rightarrow> bool" where
  "in_place_succeeds T xs p x \<longleftrightarrow>
     p = length xs \<or>
     (\<not> throws (move_ctor T) (last xs) \<and>
      list_all (\<lambda>y. \<not> throws (move_assign T) y) (x # drop p (butlast xs)))"

section \<open>Auxiliary notions for the proofs\<close>

text \<open>The region at address \<open>a\<close> is allocated and has the slots \<open>blk\<close>; the heap with that region replaced.\<close>

definition at_block :: "'a heap \<Rightarrow> addr \<Rightarrow> 'a block \<Rightarrow> bool" where
  "at_block h a blk \<longleftrightarrow> a < length (blocks h) \<and> blocks h ! a = Some blk"

definition set_block :: "addr \<Rightarrow> 'a block \<Rightarrow> 'a heap \<Rightarrow> 'a heap" where
  "set_block a blk h = h\<lparr>blocks := (blocks h)[a := Some blk]\<rparr>"

text \<open>The list \<open>D\<close> with the segment that starts at \<open>j\<close> replaced by \<open>zs\<close>.\<close>

definition overlay :: "'b list \<Rightarrow> nat \<Rightarrow> 'b list \<Rightarrow> 'b list" where
  "overlay D j zs = take j D @ zs @ drop (j + length zs) D"

text \<open>The heap after \<^verbatim>\<open>operator new\<close> has given out a region of \<open>n\<close> slots, and after the region at \<open>a\<close> was released.\<close>

definition allocated :: "nat \<Rightarrow> 'a heap \<Rightarrow> 'a heap" where
  "allocated n h = h\<lparr>blocks := blocks h @ [Some (replicate n None)], avail := avail h - n\<rparr>"

definition released :: "addr \<Rightarrow> 'a block \<Rightarrow> 'a heap \<Rightarrow> 'a heap" where
  "released a blk h =
     h\<lparr>blocks := (blocks h)[a := None],
       avail := avail h + length blk,
       delete_calls := delete_calls h @ [Some a],
       leaked := leaked h + length (filter (\<lambda>s. s \<noteq> None) blk)\<rparr>"

text \<open>
  What the two shifting loops do to the list of live values: \<^verbatim>\<open>std::move_backward\<close>
  of the \<open>n\<close> elements from index \<open>p\<close> one slot to the right, and \<^verbatim>\<open>std::move\<close> of the
  \<open>n\<close> elements from index \<open>p + 1\<close> one slot to the left; \<open>mf\<close> is what a move leaves in
  its source.
\<close>

primrec shift_right :: "('b \<Rightarrow> 'b) \<Rightarrow> nat \<Rightarrow> nat \<Rightarrow> 'b list \<Rightarrow> 'b list" where
  "shift_right mf p 0 zs = zs"
| "shift_right mf p (Suc n) zs =
     shift_right mf p n (zs[p + n + 1 := zs ! (p + n), p + n := mf (zs ! (p + n))])"

primrec shift_left :: "('b \<Rightarrow> 'b) \<Rightarrow> nat \<Rightarrow> nat \<Rightarrow> 'b list \<Rightarrow> 'b list" where
  "shift_left mf p 0 zs = zs"
| "shift_left mf p (Suc n) zs =
     (let ws = shift_left mf p n zs
      in ws[p + n := ws ! (p + n + 1), p + n + 1 := mf (ws ! (p + n + 1))])"

section \<open>Sequencing, pointers and single slots\<close>

lemma andThen_simps [simp]:
  "andThen (Returns r s) f = f r s"
  "andThen (Throws e s) f = Throws e s"
  "andThen Fault f = Fault"
  by (simp_all add: andThen_def)

lemma catch_rethrow_simps [simp]:
  "catch_rethrow (Returns r s) g = Returns r s"
  "catch_rethrow (Throws e s) g = andThen (g s) (\<lambda>_. Throws e)"
  "catch_rethrow Fault g = Fault"
  by (simp_all add: catch_rethrow_def)

lemma check_simps [simp]:
  "b \<Longrightarrow> check b r s = Returns r s"
  "\<not> b \<Longrightarrow> check b r s = Fault"
  by (simp_all add: check_def)

lemma on_heap_Returns: "f h = Returns r h' \<Longrightarrow> on_heap f (v, h) = Returns r (v, h')"
  by (simp add: on_heap_def)

lemma on_heap_Throws: "f h = Throws e h' \<Longrightarrow> on_heap f (v, h) = Throws e (v, h')"
  by (simp add: on_heap_def)

lemma on_heap_Fault: "f h = Fault \<Longrightarrow> on_heap f (v, h) = Fault"
  by (simp add: on_heap_def)

lemma ptr_add_simps [simp]:
  "ptr_add (b, i) k = (b, i + k)"
  "ptr_sub (b, i) k = (b, i - k)"
  by (simp_all add: ptr_add_def ptr_sub_def)

lemma at_block_set_block [simp]:
  "a < length (blocks h) \<Longrightarrow> at_block (set_block a blk h) a blk' \<longleftrightarrow> blk' = blk"
  by (auto simp: at_block_def set_block_def)

lemma at_block_set_block_other [simp]:
  "a \<noteq> b \<Longrightarrow> at_block (set_block b blk h) a blk' \<longleftrightarrow> at_block h a blk'"
  by (auto simp: at_block_def set_block_def)

lemma set_block_twice [simp]: "set_block a blk (set_block a blk' h) = set_block a blk h"
  by (simp add: set_block_def)

lemma set_block_same: "at_block h a blk \<Longrightarrow> set_block a blk h = h"
  by (simp add: set_block_def at_block_def list_update_same_conv)

lemma set_block_commute: "a \<noteq> b \<Longrightarrow> set_block a x (set_block b y h) = set_block b y (set_block a x h)"
  by (simp add: set_block_def list_update_swap)

lemma length_blocks_set_block [simp]: "length (blocks (set_block a blk h)) = length (blocks h)"
  by (simp add: set_block_def)

lemma construct_at_block:
  "at_block h a blk \<Longrightarrow> i < length blk \<Longrightarrow> blk ! i = None \<Longrightarrow>
   construct_at (Some a, i) x h = Returns (Some a, i) (set_block a (blk[i := Some x]) h)"
  by (simp add: construct_at_def slot_def put_def at_block_def set_block_def)

lemma destroy_at_block:
  "at_block h a blk \<Longrightarrow> i < length blk \<Longrightarrow> blk ! i = Some y \<Longrightarrow>
   destroy_at (Some a, i) h = Returns () (set_block a (blk[i := None]) h)"
  by (simp add: destroy_at_def slot_def put_def at_block_def set_block_def)

lemma read_at_block:
  "at_block h a blk \<Longrightarrow> i < length blk \<Longrightarrow> blk ! i = Some y \<Longrightarrow>
   read_at (Some a, i) h = Returns y h"
  by (simp add: read_at_def slot_def at_block_def)

lemma write_at_block:
  "at_block h a blk \<Longrightarrow> i < length blk \<Longrightarrow> blk ! i = Some y \<Longrightarrow>
   write_at (Some a, i) x h = Returns () (set_block a (blk[i := Some x]) h)"
  by (simp add: write_at_def slot_def put_def at_block_def set_block_def)

lemma length_overlay [simp]: "j + length zs \<le> length D \<Longrightarrow> length (overlay D j zs) = length D"
  by (simp add: overlay_def)

lemma nth_overlay:
  "j + length zs \<le> length D \<Longrightarrow> k < length D \<Longrightarrow>
   overlay D j zs ! k = (if j \<le> k \<and> k < j + length zs then zs ! (k - j) else D ! k)"
  by (auto simp: overlay_def nth_append)

lemma overlay_Nil [simp]: "overlay D j [] = D"
  by (simp add: overlay_def)

lemma overlay_snoc:
  "j + length zs < length D \<Longrightarrow> overlay D j (zs @ [z]) = (overlay D j zs)[j + length zs := z]"
  by (rule nth_equalityI) (auto simp: nth_overlay nth_list_update nth_append)

section \<open>Loops that fill and clear a region\<close>

lemma overlay_overlay [simp]:
  "length zs' = length zs \<Longrightarrow> j + length zs \<le> length D \<Longrightarrow> overlay (overlay D j zs) j zs' = overlay D j zs'"
  by (simp add: overlay_def)

lemma overlay_same:
  "j + length zs \<le> length D \<Longrightarrow> \<forall>k<length zs. D ! (j + k) = zs ! k \<Longrightarrow> overlay D j zs = D"
  by (rule nth_equalityI) (auto simp: nth_overlay dest: le_Suc_ex)

lemma destroy_n_block:
  "at_block h a D \<Longrightarrow> j + n \<le> length D \<Longrightarrow> \<forall>k<n. D ! (j + k) \<noteq> None \<Longrightarrow>
   destroy_n (Some a, j) n h = Returns () (set_block a (overlay D j (replicate n None)) h)"
proof (induction n)
  case 0
  then show ?case by (simp add: set_block_same)
next
  case (Suc n)
  from Suc.prems have a: "a < length (blocks h)" by (simp add: at_block_def)
  from Suc.prems obtain y where y: "D ! (j + n) = Some y" by auto
  let ?D = "overlay D j (replicate n None)"
  have step: "destroy_n (Some a, j) n h = Returns () (set_block a ?D h)"
    using Suc by simp
  have "destroy_at (Some a, j + n) (set_block a ?D h) = Returns () (set_block a (?D[j + n := None]) (set_block a ?D h))"
    using Suc.prems a y by (intro destroy_at_block[where y=y]) (simp_all add: nth_overlay)
  moreover have "?D[j + n := None] = overlay D j (replicate (Suc n) None)"
    using Suc.prems overlay_snoc[of j "replicate n None" D None] by (simp add: replicate_append_same)
  ultimately show ?case using step by simp
qed

lemma copy_value_ok: "copy_ctor T = Some c \<Longrightarrow> \<not> throws c x \<Longrightarrow> copy_value T x h = Returns x h"
  by (simp add: copy_value_def)

lemma copy_value_throws: "copy_ctor T = Some c \<Longrightarrow> throws c x \<Longrightarrow> copy_value T x h = Throws element_exception h"
  by (simp add: copy_value_def)

lemma uninitialized_copy_n_block:
  assumes "at_block h a S" "at_block h b D" "a \<noteq> b" "copy_ctor T = Some c"
    and "i + n \<le> length S" "j + n \<le> length D" "n \<le> length ys"
    and "\<forall>k<n. S ! (i + k) = Some (ys ! k)" "\<forall>k<n. D ! (j + k) = None"
    and "\<forall>k<n. \<not> throws c (ys ! k)"
  shows "uninitialized_copy_n T (Some a, i) n (Some b, j) h
           = Returns (Some b, j + n) (set_block b (overlay D j (map Some (take n ys))) h)"
  using assms(5-)
proof (induction n)
  case 0
  then show ?case using assms(2) by (simp add: set_block_same)
next
  case (Suc n)
  let ?D = "overlay D j (map Some (take n ys))"
  let ?h = "set_block b ?D h"
  from assms have b: "b < length (blocks h)" by (simp add: at_block_def)
  have step: "uninitialized_copy_n T (Some a, i) n (Some b, j) h = Returns (Some b, j + n) ?h"
    using Suc by simp
  have rd: "read_at (Some a, i + n) ?h = Returns (ys ! n) ?h"
    using Suc.prems assms(1,3) by (intro read_at_block[where blk=S]) simp_all
  have cons: "construct_at (Some b, j + n) (ys ! n) ?h = Returns (Some b, j + n) (set_block b (?D[j + n := Some (ys ! n)]) ?h)"
    using Suc.prems b by (intro construct_at_block) (simp_all add: nth_overlay)
  have "?D[j + n := Some (ys ! n)] = overlay D j (map Some (take (Suc n) ys))"
    using Suc.prems overlay_snoc[of j "map Some (take n ys)" D "Some (ys ! n)"]
    by (simp add: take_Suc_conv_app_nth)
  then show ?case
    using step rd cons Suc.prems assms(4)
    by (simp add: construct_def copy_value_ok)
qed

lemma uninitialized_copy_n_throws:
  assumes "at_block h a S" "at_block h b D" "a \<noteq> b" "copy_ctor T = Some c"
    and "i + n \<le> length S" "j + n \<le> length D" "n \<le> length ys"
    and "\<forall>k<n. S ! (i + k) = Some (ys ! k)" "\<forall>k<n. D ! (j + k) = None"
    and "m < n" "throws c (ys ! m)" "\<forall>k<m. \<not> throws c (ys ! k)"
  shows "uninitialized_copy_n T (Some a, i) n (Some b, j) h = Throws element_exception h"
  using assms(5-10)
proof (induction n)
  case 0
  then show ?case by simp
next
  case (Suc n)
  show ?case
  proof (cases "m = n")
    case True
    let ?D = "overlay D j (map Some (take n ys))"
    let ?h = "set_block b ?D h"
    from assms have b: "b < length (blocks h)" by (simp add: at_block_def)
    have step: "uninitialized_copy_n T (Some a, i) n (Some b, j) h = Returns (Some b, j + n) ?h"
      using Suc.prems assms(1-4,12) True
      by (intro uninitialized_copy_n_block[where S=S and c=c]) simp_all
    have rd: "read_at (Some a, i + n) ?h = Returns (ys ! n) ?h"
      using Suc.prems assms(1,3) by (intro read_at_block[where blk=S]) simp_all
    have "destroy_n (Some b, j) n ?h = Returns () (set_block b (overlay ?D j (replicate n None)) ?h)"
      using Suc.prems b by (intro destroy_n_block) (simp_all add: nth_overlay)
    moreover have "overlay D j (replicate n None) = D"
      using Suc.prems by (intro overlay_same) simp_all
    ultimately have "destroy_n (Some b, j) n ?h = Returns () h"
      using Suc.prems assms(2) by (simp add: set_block_same)
    then show ?thesis
      using step rd assms(4,11) True by (simp add: construct_def copy_value_throws)
  next
    case False
    with Suc.prems have "m < n" by simp
    then have "uninitialized_copy_n T (Some a, i) n (Some b, j) h = Throws element_exception h"
      using Suc by simp
    then show ?thesis by simp
  qed
qed

section \<open>Moves\<close>

lemma set_block_absorb:
  "a \<noteq> b \<Longrightarrow> set_block b Y (set_block a X (set_block b Y' h)) = set_block a X (set_block b Y h)"
  by (simp add: set_block_def list_update_swap)

lemma move_construct_block:
  assumes "at_block h a S" "at_block h b D" "a \<noteq> b"
    and "i < length S" "S ! i = Some x" "j < length D" "D ! j = None"
    and "\<not> throws (move_ctor T) x"
  shows "move_construct T (Some b, j) (Some a, i) h
           = Returns (Some b, j) (set_block a (S[i := Some (moved_from T x)]) (set_block b (D[j := Some x]) h))"
proof -
  from assms have ab: "a < length (blocks h)" "b < length (blocks h)" by (simp_all add: at_block_def)
  have rd: "read_at (Some a, i) h = Returns x h"
    using assms by (intro read_at_block[where blk=S]) simp_all
  have cons: "construct_at (Some b, j) x h = Returns (Some b, j) (set_block b (D[j := Some x]) h)"
    using assms by (intro construct_at_block) simp_all
  have wr: "write_at (Some a, i) (moved_from T x) (set_block b (D[j := Some x]) h)
              = Returns () (set_block a (S[i := Some (moved_from T x)]) (set_block b (D[j := Some x]) h))"
    using assms by (intro write_at_block[where y=x]) simp_all
  show ?thesis using rd cons wr assms(8) by (simp add: move_construct_def)
qed

lemma uninitialized_move_n_block:
  assumes "at_block h a S" "at_block h b D" "a \<noteq> b"
    and "i + n \<le> length S" "j + n \<le> length D" "n \<le> length ys"
    and "\<forall>k<n. S ! (i + k) = Some (ys ! k)" "\<forall>k<n. D ! (j + k) = None"
    and "\<forall>k<n. \<not> throws (move_ctor T) (ys ! k)"
  shows "uninitialized_move_n T (Some a, i) n (Some b, j) h
           = Returns (Some b, j + n)
               (set_block a (overlay S i (map (\<lambda>y. Some (moved_from T y)) (take n ys)))
                  (set_block b (overlay D j (map Some (take n ys))) h))"
  using assms(4-)
proof (induction n)
  case 0
  then show ?case using assms(1,2,3) by (simp add: set_block_same)
next
  case (Suc n)
  let ?S = "overlay S i (map (\<lambda>y. Some (moved_from T y)) (take n ys))"
  let ?D = "overlay D j (map Some (take n ys))"
  let ?h = "set_block a ?S (set_block b ?D h)"
  from assms have ab: "a < length (blocks h)" "b < length (blocks h)" by (simp_all add: at_block_def)
  have step: "uninitialized_move_n T (Some a, i) n (Some b, j) h = Returns (Some b, j + n) ?h"
    using Suc by simp
  have mv: "move_construct T (Some b, j + n) (Some a, i + n) ?h
              = Returns (Some b, j + n)
                  (set_block a (?S[i + n := Some (moved_from T (ys ! n))]) (set_block b (?D[j + n := Some (ys ! n)]) ?h))"
    using Suc.prems ab assms(3)
    by (intro move_construct_block) (simp_all add: nth_overlay)
  have S': "?S[i + n := Some (moved_from T (ys ! n))] = overlay S i (map (\<lambda>y. Some (moved_from T y)) (take (Suc n) ys))"
    using Suc.prems overlay_snoc[of i "map (\<lambda>y. Some (moved_from T y)) (take n ys)" S "Some (moved_from T (ys ! n))"]
    by (simp add: take_Suc_conv_app_nth)
  have D': "?D[j + n := Some (ys ! n)] = overlay D j (map Some (take (Suc n) ys))"
    using Suc.prems overlay_snoc[of j "map Some (take n ys)" D "Some (ys ! n)"]
    by (simp add: take_Suc_conv_app_nth)
  show ?case
    using step mv assms(3) unfolding S' D'
    by (simp add: set_block_absorb)
qed

lemma move_assign_at_block:
  assumes "at_block h a B" "i < length B" "j < length B" "i \<noteq> j"
    and "B ! j = Some x" "B ! i = Some y" "\<not> throws (move_assign T) x"
  shows "move_assign_at T (Some a, i) (Some a, j) h
           = Returns () (set_block a (B[i := Some x, j := Some (moved_from T x)]) h)"
proof -
  from assms have a: "a < length (blocks h)" by (simp add: at_block_def)
  have rd: "read_at (Some a, j) h = Returns x h" "read_at (Some a, i) h = Returns y h"
    using assms by (auto intro: read_at_block)
  have w1: "write_at (Some a, i) x h = Returns () (set_block a (B[i := Some x]) h)"
    using assms by (intro write_at_block[where y=y]) simp_all
  have w2: "write_at (Some a, j) (moved_from T x) (set_block a (B[i := Some x]) h)
              = Returns () (set_block a (B[i := Some x, j := Some (moved_from T x)]) (set_block a (B[i := Some x]) h))"
    using assms a by (intro write_at_block[where y=x]) simp_all
  show ?thesis using rd w1 w2 assms(7) by (simp add: move_assign_at_def move_assign_value_def)
qed

lemma move_assign_at_throws:
  assumes "at_block h a B" "i < length B" "j < length B"
    and "B ! j = Some x" "B ! i = Some y" "throws (move_assign T) x"
  shows "move_assign_at T (Some a, i) (Some a, j) h = Throws element_exception h"
proof -
  have rd: "read_at (Some a, j) h = Returns x h" "read_at (Some a, i) h = Returns y h"
    using assms by (auto intro: read_at_block)
  show ?thesis using rd assms(6) by (simp add: move_assign_at_def move_assign_value_def)
qed

lemma move_assign_value_block:
  assumes "at_block h a B" "i < length B" "B ! i = Some y" "\<not> throws (move_assign T) x"
  shows "move_assign_value T (Some a, i) x h = Returns () (set_block a (B[i := Some x]) h)"
proof -
  have rd: "read_at (Some a, i) h = Returns y h"
    using assms by (auto intro: read_at_block)
  have w1: "write_at (Some a, i) x h = Returns () (set_block a (B[i := Some x]) h)"
    using assms by (intro write_at_block[where y=y]) simp_all
  show ?thesis using rd w1 assms(4) by (simp add: move_assign_value_def)
qed

section \<open>Allocation, release and relocation\<close>

text \<open>For evaluation the product is computed on integers, whose numerals are binary.\<close>

lemma size_t_mul_code [code]:
  "size_t_mul a b = nat ((int a * int b) mod 18446744073709551616)"
  by (simp add: size_t_mul_def nat_mod_distrib nat_mult_distrib)

lemma size_t_mul_exact: "a * b < 2 ^ 64 \<Longrightarrow> size_t_mul a b = a * b"
  by (simp add: size_t_mul_def)

lemma operator_new_allocated:
  "0 < s \<Longrightarrow> n \<le> avail h \<Longrightarrow>
   operator_new s (n * s) h = Returns (Some (length (blocks h))) (allocated n h)"
  by (simp add: operator_new_def allocated_def)

lemma allocation_succeeds_avail: "allocation_succeeds T n h \<Longrightarrow> n \<le> avail h"
  by (simp add: allocation_succeeds_def)

lemma at_block_allocated_new [simp]:
  "at_block (allocated n h) (length (blocks h)) D \<longleftrightarrow> D = replicate n None"
  by (auto simp: at_block_def allocated_def)

lemma at_block_allocated_old:
  "at_block h a S \<Longrightarrow> at_block (allocated n h) a S"
  by (simp add: at_block_def allocated_def nth_append)

lemma operator_delete_released:
  "at_block h a B \<Longrightarrow> operator_delete (Some a) h = Returns () (released a B h)"
  by (simp add: operator_delete_def released_def at_block_def)

lemma at_block_released_other [simp]:
  "a \<noteq> b \<Longrightarrow> at_block (released a B h) b D \<longleftrightarrow> at_block h b D"
  by (auto simp: at_block_def released_def)

lemma holds_Some:
  "m_buffer (m_data v) = Some a \<Longrightarrow>
   holds v h xs \<longleftrightarrow> m_size v = length xs \<and> length xs \<le> Capacity v \<and> 0 < Capacity v \<and>
     at_block h a (map Some xs @ replicate (Capacity v - length xs) None)"
  by (auto simp: holds_def at_block_def)


lemma holds_buffer:
  "holds v h xs \<Longrightarrow> 0 < Capacity v \<Longrightarrow> \<exists>a. m_buffer (m_data v) = Some a"
  by (cases "m_buffer (m_data v)") (auto simp: holds_def)

lemma block_snoc:
  "length xs < c \<Longrightarrow>
   (map Some xs @ replicate (c - length xs) None)[length xs := Some x]
     = map Some (xs @ [x]) @ replicate (c - Suc (length xs)) None"
  by (rule nth_equalityI) (auto simp: nth_append nth_list_update)

lemma relocation_succeeds_move:
  "relocation_succeeds T xs \<Longrightarrow> relocate_by_move T \<Longrightarrow> k < length xs \<Longrightarrow> \<not> throws (move_ctor T) (xs ! k)"
  by (simp add: relocation_succeeds_def list_all_length)

lemma relocation_succeeds_copy:
  "relocation_succeeds T xs \<Longrightarrow> \<not> relocate_by_move T \<Longrightarrow>
   \<exists>c. copy_ctor T = Some c \<and> (\<forall>k<length xs. \<not> throws c (xs ! k))"
  by (auto simp: relocation_succeeds_def list_all_length split: option.splits)

lemma TransferAndSwap_block:
  assumes "holds v h xs" "m_buffer (m_data v) = Some a" "at_block h b D" "a \<noteq> b"
    and "length xs \<le> length D" "\<forall>k<length xs. D ! k = None" "relocation_succeeds T xs"
  shows "TransferAndSwap T \<lparr>m_buffer = Some b, m_capacity = c\<rparr> (v, h)
           = Returns \<lparr>m_buffer = Some a, m_capacity = Capacity v\<rparr>
               (\<lparr>m_data = \<lparr>m_buffer = Some b, m_capacity = c\<rparr>, m_size = length xs\<rparr>,
                set_block a (replicate (Capacity v) None) (set_block b (overlay D 0 (map Some xs)) h))"
proof -
  let ?S = "map Some xs @ replicate (Capacity v - length xs) None"
  let ?n = "length xs"
  let ?D = "overlay D 0 (map Some xs)"
  from assms have S: "at_block h a ?S" and sz: "m_size v = ?n" and cap: "?n \<le> Capacity v"
    by (simp_all add: holds_Some)
  from S assms(3) have ab: "a < length (blocks h)" "b < length (blocks h)" by (simp_all add: at_block_def)
  have src: "\<forall>k<?n. ?S ! (0 + k) = Some (xs ! k)" by (simp add: nth_append)
  have clear: "overlay ?S 0 (replicate ?n None) = replicate (Capacity v) None"
    using cap by (intro nth_equalityI) (auto simp: nth_overlay nth_append)
  have clear': "overlay (overlay ?S 0 (map (\<lambda>y. Some (moved_from T y)) xs)) 0 (replicate ?n None) = replicate (Capacity v) None"
    using cap clear by simp
  show ?thesis
  proof (cases "relocate_by_move T")
    case True
    let ?S' = "overlay ?S 0 (map (\<lambda>y. Some (moved_from T y)) xs)"
    let ?h1 = "set_block a ?S' (set_block b ?D h)"
    have mv: "uninitialized_move_n T (Some a, 0) ?n (Some b, 0) h = Returns (Some b, 0 + ?n) ?h1"
      using uninitialized_move_n_block[OF S assms(3,4), of 0 ?n 0 xs T] assms(5,6,7) True cap src
      by (simp add: relocation_succeeds_move)
    have de: "destroy_n (Some a, 0) ?n ?h1 = Returns () (set_block a (overlay ?S' 0 (replicate ?n None)) ?h1)"
      using ab cap by (intro destroy_n_block) (auto simp: nth_overlay)
    show ?thesis
      using True mv de sz assms(2) unfolding clear'
      by (simp add: TransferAndSwap_def Vector_begin_def GetAddress_def on_heap_def RawMemory_Swap_def Capacity_def)
  next
    case False
    then obtain cc where cc: "copy_ctor T = Some cc" "\<forall>k<?n. \<not> throws cc (xs ! k)"
      using relocation_succeeds_copy[OF assms(7)] by auto
    let ?h1 = "set_block b ?D h"
    have cp: "uninitialized_copy_n T (Some a, 0) ?n (Some b, 0) h = Returns (Some b, 0 + ?n) ?h1"
      using uninitialized_copy_n_block[OF S assms(3,4) cc(1), of 0 ?n 0 xs] assms(5,6) cc(2) cap src
      by simp
    have de: "destroy_n (Some a, 0) ?n ?h1 = Returns () (set_block a (overlay ?S 0 (replicate ?n None)) ?h1)"
      using ab cap S assms(4) by (intro destroy_n_block) (auto simp: nth_append)
    show ?thesis
      using False cp de sz assms(2) unfolding clear
      by (simp add: TransferAndSwap_def Vector_begin_def GetAddress_def on_heap_def RawMemory_Swap_def Capacity_def)
  qed
qed

section \<open>Appending an element\<close>

lemma slot_allocated:
  "slot h p = Some s \<Longrightarrow> slot (allocated n h) p = Some s"
  by (auto simp: slot_def allocated_def nth_append split: option.splits if_splits)

lemma read_at_allocated:
  "read_at p h = Returns y h' \<Longrightarrow> read_at p (allocated n h) = Returns y (allocated n h)"
proof -
  assume "read_at p h = Returns y h'"
  then have "slot h p = Some (Some y)"
    by (auto simp: read_at_def split: option.splits)
  then have "slot (allocated n h) p = Some (Some y)"
    by (rule slot_allocated)
  then show ?thesis by (simp add: read_at_def)
qed

lemma read_at_same: "read_at p h = Returns y h' \<Longrightarrow> h' = h"
  by (auto simp: read_at_def split: option.splits)

lemma copy_value_allocated:
  "copy_value T y h = Returns x h' \<Longrightarrow> copy_value T y (allocated n h) = Returns x (allocated n h)"
  by (auto simp: copy_value_def split: option.splits if_splits)

lemma initial_value_allocated:
  "initial_value T a h = Returns x h \<Longrightarrow> initial_value T a (allocated n h) = Returns x (allocated n h)"
proof (cases a)
  case (CopyOf src)
  assume iv: "initial_value T a h = Returns x h"
  then obtain y where y: "read_at src h = Returns y h" "copy_value T y h = Returns x h"
    using CopyOf by (cases "read_at src h") (auto dest: read_at_same)
  then show ?thesis using CopyOf
    by (simp add: read_at_allocated[OF y(1)] copy_value_allocated[OF y(2)])
next
  case (CopyVal y)
  then show "initial_value T a h = Returns x h \<Longrightarrow> ?thesis"
    by (simp add: copy_value_allocated)
next
  case (MoveVal y)
  then show "initial_value T a h = Returns x h \<Longrightarrow> ?thesis"
    by (simp split: if_splits)
next
  case (Ctor r)
  then show "initial_value T a h = Returns x h \<Longrightarrow> ?thesis"
    by (cases r) simp_all
qed

lemma heap_fields [simp]:
  "delete_calls (set_block a B h) = delete_calls h"
  "avail (set_block a B h) = avail h"
  "leaked (set_block a B h) = leaked h"
  "delete_calls (allocated n h) = delete_calls h"
  "avail (allocated n h) = avail h - n"
  "leaked (allocated n h) = leaked h"
  "length (blocks (allocated n h)) = Suc (length (blocks h))"
  "delete_calls (released a B h) = delete_calls h @ [Some a]"
  "avail (released a B h) = avail h + length B"
  "leaked (released a B h) = leaked h + length (filter (\<lambda>s. s \<noteq> None) B)"
  "length (blocks (released a B h)) = length (blocks h)"
  by (simp_all add: set_block_def allocated_def released_def)

lemma on_heap_pair:
  "on_heap f (v, h) =
     (case f h of Returns r h' \<Rightarrow> Returns r (v, h') | Throws e h' \<Rightarrow> Throws e (v, h') | Fault \<Rightarrow> Fault)"
  by (cases "f h") (simp_all add: on_heap_def)

lemma RawMemory_plus_ok:
  "off \<le> m_capacity m \<Longrightarrow> RawMemory_plus m off s = Returns (m_buffer m, off) s"
  by (simp add: RawMemory_plus_def GetAddress_def)

lemma RawMemory_index_ok:
  "i < m_capacity m \<Longrightarrow> RawMemory_index m i s = Returns (m_buffer m, i) s"
  by (simp add: RawMemory_index_def GetAddress_def)


lemma RawMemory_ctor_ok:
  "0 < n \<Longrightarrow> allocation_succeeds T n h \<Longrightarrow>
   RawMemory_ctor T n h = Returns \<lparr>m_buffer = Some (length (blocks h)), m_capacity = n\<rparr> (allocated n h)"
  by (simp add: RawMemory_ctor_def Allocate_def allocation_succeeds_def size_t_mul_exact
        operator_new_allocated)

lemma EmplaceBack_in_place:
  assumes "holds v h xs" "length xs < Capacity v" "m_buffer (m_data v) = Some a"
    and "initial_value T args h = Returns x h"
  shows "EmplaceBack T args (v, h)
           = Returns (Some a, length xs)
               (v\<lparr>m_size := Suc (length xs)\<rparr>,
                set_block a (map Some (xs @ [x]) @ replicate (Capacity v - Suc (length xs)) None) h)"
proof -
  let ?S = "map Some xs @ replicate (Capacity v - length xs) None"
  from assms have S: "at_block h a ?S" and sz: "m_size v = length xs"
    by (simp_all add: holds_Some)
  have "construct_at (Some a, length xs) x h = Returns (Some a, length xs) (set_block a (?S[length xs := Some x]) h)"
    using S assms(2) by (intro construct_at_block) (simp_all add: nth_append)
  then have c: "construct T (Some a, length xs) args h
               = Returns (Some a, length xs) (set_block a (map Some (xs @ [x]) @ replicate (Capacity v - Suc (length xs)) None) h)"
    using assms(2,4) by (simp add: construct_def block_snoc)
  have ne: "length xs \<noteq> Capacity v" and le: "length xs \<le> m_capacity (m_data v)" and lt: "length xs < m_capacity (m_data v)"
    using assms(2) by (simp_all add: Capacity_def)
  show ?thesis
    unfolding EmplaceBack_def
    by (simp add: sz ne c on_heap_pair RawMemory_plus_ok[OF le] RawMemory_index_ok[OF lt] assms(3))
qed

lemma EmplaceBack_from_empty:
  assumes "holds v h []" "Capacity v = 0" "allocation_succeeds T 1 h"
    and "initial_value T args h = Returns x h"
  shows "EmplaceBack T args (v, h)
           = Returns (Some (length (blocks h)), 0)
               (\<lparr>m_data = \<lparr>m_buffer = Some (length (blocks h)), m_capacity = 1\<rparr>, m_size = 1\<rparr>,
                (set_block (length (blocks h)) [Some x] (allocated 1 h))
                   \<lparr>delete_calls := delete_calls h @ [None]\<rparr>)"
proof -
  let ?b = "length (blocks h)"
  let ?nd = "\<lparr>m_buffer = Some ?b, m_capacity = Suc 0\<rparr>"
  let ?h2 = "set_block ?b [Some x] (allocated (Suc 0) h)"
  from assms have sz: "m_size v = 0" and buf: "m_buffer (m_data v) = None" and cap: "m_capacity (m_data v) = 0"
    by (auto simp: holds_def Capacity_def split: option.splits)
  have new: "RawMemory_ctor T (Suc 0) h = Returns ?nd (allocated 1 h)"
    using RawMemory_ctor_ok[of 1 T h] assms(3) by simp
  have "construct_at (Some ?b, 0) x (allocated 1 h) = Returns (Some ?b, 0) (set_block ?b ((replicate 1 None)[0 := Some x]) (allocated 1 h))"
    by (intro construct_at_block) simp_all
  then have cons: "construct T (Some ?b, 0) args (allocated (Suc 0) h) = Returns (Some ?b, 0) ?h2"
    using initial_value_allocated[OF assms(4), of 1] by (simp add: construct_def)
  have ts: "TransferAndSwap T ?nd (v, ?h2) = Returns (m_data v) (v\<lparr>m_data := ?nd\<rparr>, ?h2)"
    by (simp add: TransferAndSwap_def sz on_heap_pair RawMemory_Swap_def buf cap)
  have dt: "RawMemory_dtor (m_data v) ?h2 = Returns () (?h2\<lparr>delete_calls := delete_calls h @ [None]\<rparr>)"
    by (simp add: RawMemory_dtor_def Deallocate_def operator_delete_def buf)
  show ?thesis
    unfolding EmplaceBack_def
    by (simp add: sz Capacity_def cap new cons ts dt on_heap_pair unwinding_def RawMemory_plus_ok RawMemory_index_ok)
qed

lemma holds_allocated: "holds v h xs \<Longrightarrow> holds v (allocated k h) xs"
  by (auto simp: holds_def allocated_def nth_append split: option.splits)

lemma holds_set_block_other:
  "holds v h xs \<Longrightarrow> m_buffer (m_data v) = Some a \<Longrightarrow> a \<noteq> b \<Longrightarrow> holds v (set_block b D h) xs"
  by (simp add: holds_Some)

lemma new_block_full:
  "0 < length xs \<Longrightarrow>
   overlay ((replicate (length xs * 2) None)[length xs := Some x]) 0 (map Some xs)
     = map Some (xs @ [x]) @ replicate (length xs * 2 - Suc (length xs)) None"
  by (rule nth_equalityI) (auto simp: nth_overlay nth_append nth_list_update)

lemma RawMemory_dtor_block:
  "at_block h a B \<Longrightarrow> RawMemory_dtor \<lparr>m_buffer = Some a, m_capacity = c\<rparr> h = Returns () (released a B h)"
  by (simp add: RawMemory_dtor_def Deallocate_def operator_delete_released)


lemma EmplaceBack_full:
  assumes "holds v h xs" "Capacity v = length xs" "0 < length xs" "m_buffer (m_data v) = Some a"
    and "allocation_succeeds T (length xs * 2) h" "initial_value T args h = Returns x h" "relocation_succeeds T xs"
  shows "EmplaceBack T args (v, h)
           = Returns (Some (length (blocks h)), length xs)
               (\<lparr>m_data = \<lparr>m_buffer = Some (length (blocks h)), m_capacity = length xs * 2\<rparr>,
                 m_size = Suc (length xs)\<rparr>,
                released a (replicate (length xs) None)
                  (set_block a (replicate (length xs) None)
                     (set_block (length (blocks h))
                        (map Some (xs @ [x]) @ replicate (length xs * 2 - Suc (length xs)) None)
                        (allocated (length xs * 2) h))))"
proof -
  define n where "n = length xs"
  define b where "b = length (blocks h)"
  define nd where "nd = \<lparr>m_buffer = Some b, m_capacity = n * 2\<rparr>"
  define od where "od = \<lparr>m_buffer = Some a, m_capacity = n\<rparr>"
  define h1 where "h1 = allocated (n * 2) h"
  define D1 where "D1 = (replicate (n * 2) (None :: 'a option))[n := Some x]"
  define h2 where "h2 = set_block b D1 h1"
  define D2 where "D2 = map Some (xs @ [x]) @ replicate (n * 2 - Suc n) None"
  define h3 where "h3 = set_block a (replicate n None) (set_block b D2 h1)"
  define h4 where "h4 = released a (replicate n None) h3"
  from assms have sz: "m_size v = n" and cap: "m_capacity (m_data v) = n" and n0: "n \<noteq> 0"
    and S: "at_block h a (map Some xs @ replicate (Capacity v - length xs) None)"
    by (simp_all add: holds_Some Capacity_def n_def)
  from S have ab: "a < b" "a \<noteq> b" by (simp_all add: at_block_def b_def)
  have new: "RawMemory_ctor T (n * 2) h = Returns nd h1"
    unfolding nd_def h1_def b_def n_def using assms(3,5) by (intro RawMemory_ctor_ok) simp_all
  have "construct_at (Some b, n) x h1 = Returns (Some b, n) h2"
    unfolding h2_def D1_def h1_def b_def n_def using assms(3) by (intro construct_at_block) simp_all
  then have cons: "construct T (Some b, n) args h1 = Returns (Some b, n) h2"
    using initial_value_allocated[OF assms(6), of "n * 2"] by (simp add: construct_def h1_def)
  have hh: "holds v h2 xs"
    unfolding h2_def h1_def using holds_set_block_other[OF holds_allocated[OF assms(1)] assms(4) ab(2)] .
  have bD: "at_block h2 b D1"
    unfolding h2_def h1_def b_def by (simp add: allocated_def)
  have "TransferAndSwap T \<lparr>m_buffer = Some b, m_capacity = n * 2\<rparr> (v, h2)
          = Returns \<lparr>m_buffer = Some a, m_capacity = Capacity v\<rparr>
              (\<lparr>m_data = \<lparr>m_buffer = Some b, m_capacity = n * 2\<rparr>, m_size = length xs\<rparr>,
               set_block a (replicate (Capacity v) None) (set_block b (overlay D1 0 (map Some xs)) h2))"
    using hh assms(4) bD ab(2) assms(7)
    by (intro TransferAndSwap_block) (simp_all add: D1_def n_def)
  moreover have "overlay D1 0 (map Some xs) = D2"
    unfolding D1_def D2_def n_def using assms(3) by (rule new_block_full)
  moreover have "set_block b D2 h2 = set_block b D2 h1"
    by (simp add: h2_def)
  ultimately have ts: "TransferAndSwap T nd (v, h2) = Returns od (\<lparr>m_data = nd, m_size = n\<rparr>, h3)"
    by (simp add: nd_def od_def h3_def assms(2) n_def)
  have "at_block h3 a (replicate n None)"
    using ab by (simp add: h3_def h1_def b_def at_block_def allocated_def set_block_def)
  then have dt: "RawMemory_dtor od h3 = Returns () h4"
    unfolding od_def h4_def by (rule RawMemory_dtor_block)
  have p: "\<And>s. RawMemory_plus nd n s = Returns (Some b, n) s"
    by (simp add: RawMemory_plus_ok nd_def)
  have q: "\<And>s. RawMemory_index nd n s = Returns (Some b, n) s"
    using n0 by (simp add: RawMemory_index_ok nd_def)
  have "EmplaceBack T args (v, h) = Returns (Some b, n) (\<lparr>m_data = nd, m_size = Suc n\<rparr>, h4)"
    unfolding EmplaceBack_def
    by (simp add: sz Capacity_def cap n0 new cons ts dt p q on_heap_pair unwinding_def)
  then show ?thesis
    by (simp add: n_def b_def nd_def h4_def h3_def D2_def h1_def)
qed

section \<open>What a call that returns has done to the object\<close>

lemma andThen_Returns_iff:
  "andThen m f = Returns r s \<longleftrightarrow> (\<exists>r' s'. m = Returns r' s' \<and> f r' s' = Returns r s)"
  by (cases m) simp_all

lemma catch_rethrow_Returns_iff:
  "catch_rethrow m g = Returns r s \<longleftrightarrow> m = Returns r s"
  by (cases m) (auto simp: andThen_Returns_iff)

lemma on_heap_Returns_iff:
  "on_heap f s = Returns r s' \<longleftrightarrow> (\<exists>h'. f (snd s) = Returns r h' \<and> s' = (fst s, h'))"
  by (cases "f (snd s)") (auto simp: on_heap_def)

lemma check_Returns_iff:
  "check b r s = Returns r' s' \<longleftrightarrow> b \<and> r' = r \<and> s' = s"
  by (auto simp: check_def)

lemma RawMemory_ctor_capacity:
  "RawMemory_ctor T n h = Returns nd h' \<Longrightarrow> m_capacity nd = n"
  by (auto simp: RawMemory_ctor_def andThen_Returns_iff)

lemma TransferAndSwap_Returns:
  assumes "TransferAndSwap T nd s = Returns r s'"
  shows "m_data (fst s') = nd \<and> m_size (fst s') = m_size (fst s)"
  using assms
  by (cases s)
     (auto simp: TransferAndSwap_def andThen_Returns_iff on_heap_Returns_iff RawMemory_Swap_def
           split: if_splits prod.splits)

lemma EmplaceBack_Returns:
  assumes "EmplaceBack T a s = Returns r s'"
  shows "m_size (fst s') = Suc (m_size (fst s))"
    and "Capacity (fst s') =
           (if m_size (fst s) = Capacity (fst s)
            then (if m_size (fst s) = 0 then 1 else m_size (fst s) * 2) else Capacity (fst s))"
    and "r = (m_buffer (m_data (fst s')), m_size (fst s))"
  using assms
  by (auto simp: EmplaceBack_def andThen_Returns_iff on_heap_Returns_iff catch_rethrow_Returns_iff
        unwinding_def RawMemory_plus_def RawMemory_index_def check_Returns_iff GetAddress_def Capacity_def
        dest!: TransferAndSwap_Returns RawMemory_ctor_capacity
        split: if_splits prod.splits)

lemma PopBack_Returns:
  assumes "PopBack s = Returns r s'"
  shows "0 < m_size (fst s) \<and> m_size (fst s') = m_size (fst s) - 1 \<and> m_data (fst s') = m_data (fst s)"
  using assms
  by (auto simp: PopBack_def andThen_Returns_iff on_heap_Returns_iff check_Returns_iff RawMemory_plus_def
        split: if_splits prod.splits)

lemma holds_capacity_0: "holds v h xs \<Longrightarrow> Capacity v = 0 \<Longrightarrow> xs = [] \<and> m_buffer (m_data v) = None"
  by (auto simp: holds_def split: option.splits)

lemma EmplaceBack_holds:
  assumes "holds v h xs" "initial_value T args h = Returns x h"
    and "Capacity v = length xs \<Longrightarrow>
           allocation_succeeds T (if xs = [] then 1 else length xs * 2) h \<and> relocation_succeeds T xs"
  shows "\<exists>v' h'. EmplaceBack T args (v, h) = Returns (m_buffer (m_data v'), length xs) (v', h') \<and>
           holds v' h' (xs @ [x])"
proof (cases "Capacity v = length xs")
  case False
  with assms(1) have lt: "length xs < Capacity v" by (simp add: holds_def)
  then obtain a where a: "m_buffer (m_data v) = Some a"
    using holds_buffer[OF assms(1)] by auto
  let ?v = "v\<lparr>m_size := Suc (length xs)\<rparr>"
  let ?h = "set_block a (map Some (xs @ [x]) @ replicate (Capacity v - Suc (length xs)) None) h"
  have "holds ?v ?h (xs @ [x])"
    using assms(1) lt a by (simp add: holds_Some Capacity_def at_block_def set_block_def)
  then show ?thesis
    using EmplaceBack_in_place[OF assms(1) lt a assms(2)] a by auto
next
  case True
  show ?thesis
  proof (cases "xs = []")
    case True
    with \<open>Capacity v = length xs\<close> have cap: "Capacity v = 0" by simp
    have e: "holds v h []" using assms(1) True by simp
    have m: "allocation_succeeds T 1 h" using assms(3) True \<open>Capacity v = length xs\<close> by simp
    let ?b = "length (blocks h)"
    let ?v = "\<lparr>m_data = \<lparr>m_buffer = Some ?b, m_capacity = 1\<rparr>, m_size = 1\<rparr>"
    let ?h = "(set_block ?b [Some x] (allocated 1 h))\<lparr>delete_calls := delete_calls h @ [None]\<rparr>"
    have "holds ?v ?h [x]"
      by (simp add: holds_def Capacity_def set_block_def allocated_def)
    then show ?thesis
      using EmplaceBack_from_empty[OF e cap m assms(2)] True by auto
  next
    case False
    then have pos: "0 < length xs" by simp
    with \<open>Capacity v = length xs\<close> obtain a where a: "m_buffer (m_data v) = Some a"
      using holds_buffer[OF assms(1)] by auto
    have m: "allocation_succeeds T (length xs * 2) h" and rs: "relocation_succeeds T xs"
      using assms(3) False \<open>Capacity v = length xs\<close> by simp_all
    from assms(1) a have "a < length (blocks h)" by (simp add: holds_Some at_block_def)
    then have ab: "a \<noteq> length (blocks h)" by simp
    let ?b = "length (blocks h)"
    let ?v = "\<lparr>m_data = \<lparr>m_buffer = Some ?b, m_capacity = length xs * 2\<rparr>, m_size = Suc (length xs)\<rparr>"
    let ?D = "map Some (xs @ [x]) @ replicate (length xs * 2 - Suc (length xs)) None"
    let ?h = "released a (replicate (length xs) None)
                (set_block a (replicate (length xs) None) (set_block ?b ?D (allocated (length xs * 2) h)))"
    have "at_block ?h ?b ?D"
      using ab by (simp add: at_block_def released_def set_block_def allocated_def)
    then have "holds ?v ?h (xs @ [x])"
      using pos by (cases xs) (simp_all add: holds_Some Capacity_def)
    then show ?thesis
      using EmplaceBack_full[OF assms(1) \<open>Capacity v = length xs\<close> pos a m assms(2) rs] by auto
  qed
qed

lemma Vector_index_holds:
  "holds v h xs \<Longrightarrow> i < length xs \<Longrightarrow> Vector_index v i s = Returns (m_buffer (m_data v), i) s"
  by (simp add: Vector_index_def holds_def RawMemory_index_ok Capacity_def)

lemma read_at_holds:
  assumes "holds v h xs" "i < length xs"
  shows "read_at (m_buffer (m_data v), i) h = Returns (xs ! i) h"
proof -
  from assms have "0 < Capacity v" by (simp add: holds_def)
  then obtain a where a: "m_buffer (m_data v) = Some a"
    using holds_buffer[OF assms(1)] by auto
  with assms have "at_block h a (map Some xs @ replicate (Capacity v - length xs) None)"
    by (simp add: holds_Some)
  then show ?thesis
    using a assms(2) by (simp add: read_at_block[where y="xs ! i"] nth_append)
qed

lemma RawMemory_ctor_Returns:
  "RawMemory_ctor T n h = Returns nd h' \<Longrightarrow> 0 < n \<Longrightarrow>
     nd = \<lparr>m_buffer = Some (length (blocks h)), m_capacity = n\<rparr> \<and>
     size_t_mul n (sizeof T) div sizeof T \<le> avail h \<and>
     h' = allocated (size_t_mul n (sizeof T) div sizeof T) h"
  by (auto simp: RawMemory_ctor_def andThen_Returns_iff Allocate_def operator_new_def allocated_def
           split: if_splits)

lemma EmplaceBack_Returns_buffer:
  assumes "EmplaceBack T a s = Returns r s'" "m_size (fst s) = Capacity (fst s)"
  shows "m_buffer (m_data (fst s')) = Some (length (blocks (snd s)))"
  using assms
  by (auto simp: EmplaceBack_def andThen_Returns_iff on_heap_Returns_iff catch_rethrow_Returns_iff
        unwinding_def RawMemory_plus_def RawMemory_index_def check_Returns_iff GetAddress_def Capacity_def
        dest!: TransferAndSwap_Returns RawMemory_ctor_Returns
        split: if_splits prod.splits)

lemma Emplace_Returns:
  assumes "Emplace T pos a s = Returns r s'"
  shows "m_size (fst s') = Suc (m_size (fst s))"
    and "Capacity (fst s') =
           (if m_size (fst s) = Capacity (fst s)
            then (if m_size (fst s) = 0 then 1 else m_size (fst s) * 2) else Capacity (fst s))"
    and "r = (m_buffer (m_data (fst s')), snd pos)"
    and "m_size (fst s) = Capacity (fst s) \<Longrightarrow> m_buffer (m_data (fst s')) = Some (length (blocks (snd s)))"
  using assms
  by (auto simp: Emplace_def andThen_Returns_iff on_heap_Returns_iff catch_rethrow_Returns_iff
        unwinding_def RawMemory_plus_def RawMemory_index_def check_Returns_iff GetAddress_def Capacity_def
        Vector_begin_def Vector_end_def RawMemory_Swap_def
        dest!: RawMemory_ctor_Returns
        split: if_splits prod.splits)

section \<open>What a relocation that returns has found\<close>





section \<open>Reserve\<close>









section \<open>Shifting inside a region\<close>

lemma length_shift_right [simp]: "length (shift_right mf p n zs) = length zs"
  by (induction n arbitrary: zs) simp_all

lemma nth_shift_right:
  "p + n < length zs \<Longrightarrow> k < length zs \<Longrightarrow>
   shift_right mf p n zs ! k =
     (if k = p \<and> 0 < n then mf (zs ! p) else if p < k \<and> k \<le> p + n then zs ! (k - 1) else zs ! k)"
proof (induction n arbitrary: zs)
  case 0
  then show ?case by auto
next
  case (Suc n)
  let ?zs = "zs[p + n + 1 := zs ! (p + n), p + n := mf (zs ! (p + n))]"
  have IH: "shift_right mf p n ?zs ! k =
     (if k = p \<and> 0 < n then mf (?zs ! p) else if p < k \<and> k \<le> p + n then ?zs ! (k - 1) else ?zs ! k)"
    using Suc.prems by (intro Suc.IH) simp_all
  consider "k = p + n + 1" | "k = p + n" | "k < p + n" | "p + n + 1 < k" by linarith
  then show ?case
  proof cases
    case 1
    then show ?thesis using IH Suc.prems by simp
  next
    case 2
    then show ?thesis using IH Suc.prems by (cases n) auto
  next
    case 3
    then show ?thesis using IH Suc.prems by (auto simp: nth_list_update)
  next
    case 4
    then show ?thesis using IH Suc.prems by simp
  qed
qed

lemma length_shift_left [simp]: "length (shift_left mf p n zs) = length zs"
  by (induction n) (simp_all add: Let_def)

lemma nth_shift_left:
  "p + n < length zs \<Longrightarrow>
   \<forall>k<length zs. shift_left mf p n zs ! k =
     (if p \<le> k \<and> k < p + n then zs ! (k + 1) else if k = p + n \<and> 0 < n then mf (zs ! k) else zs ! k)"
proof (induction n)
  case 0
  then show ?case by auto
next
  case (Suc n)
  let ?ws = "shift_left mf p n zs"
  from Suc have IH: "\<forall>k<length zs. ?ws ! k =
     (if p \<le> k \<and> k < p + n then zs ! (k + 1) else if k = p + n \<and> 0 < n then mf (zs ! k) else zs ! k)"
    by simp
  have top: "?ws ! (p + n + 1) = zs ! (p + n + 1)"
    using IH Suc.prems by simp
  show ?case
  proof (intro allI impI)
    fix k assume k: "k < length zs"
    consider "k = p + n + 1" | "k = p + n" | "k < p + n" | "p + n + 1 < k" by linarith
    then show "shift_left mf p (Suc n) zs ! k =
       (if p \<le> k \<and> k < p + Suc n then zs ! (k + 1)
        else if k = p + Suc n \<and> 0 < Suc n then mf (zs ! k) else zs ! k)"
    proof cases
      case 1
      then show ?thesis using top k by (simp add: Let_def)
    next
      case 2
      then show ?thesis using top k Suc.prems by (simp add: Let_def)
    next
      case 3
      then show ?thesis using IH k by (simp add: Let_def)
    next
      case 4
      then show ?thesis using IH k by (simp add: Let_def)
    qed
  qed
qed

lemma live_update:
  "i < length zs \<Longrightarrow> (map Some zs @ R)[i := Some x] = map Some (zs[i := x]) @ R"
  by (simp add: list_update_append map_update)

lemma move_assign_at_live:
  assumes "at_block h a (map Some zs @ R)" "i < length zs" "j < length zs" "i \<noteq> j"
    and "\<not> throws (move_assign T) (zs ! j)"
  shows "move_assign_at T (Some a, i) (Some a, j) h
           = Returns () (set_block a (map Some (zs[i := zs ! j, j := moved_from T (zs ! j)]) @ R) h)"
proof -
  let ?B = "map Some zs @ R"
  have "move_assign_at T (Some a, i) (Some a, j) h
          = Returns () (set_block a (?B[i := Some (zs ! j), j := Some (moved_from T (zs ! j))]) h)"
    using assms by (intro move_assign_at_block[where y="zs ! i"]) (simp_all add: nth_append)
  then show ?thesis using assms(2,3) by (simp add: live_update)
qed

lemma std_move_backward_live:
  assumes "at_block h a (map Some zs @ R)" "p + n < length zs"
    and "\<forall>k. p \<le> k \<and> k < p + n \<longrightarrow> \<not> throws (move_assign T) (zs ! k)"
  shows "std_move_backward T (Some a, p) n (Some a, p + n + 1) h
           = Returns (Some a, p + 1) (set_block a (map Some (shift_right (moved_from T) p n zs) @ R) h)"
  using assms
proof (induction n arbitrary: zs h)
  case 0
  then show ?case by (simp add: set_block_same)
next
  case (Suc n)
  let ?zs = "zs[p + n + 1 := zs ! (p + n), p + n := moved_from T (zs ! (p + n))]"
  let ?h = "set_block a (map Some ?zs @ R) h"
  from Suc.prems(1) have a: "a < length (blocks h)" by (simp add: at_block_def)
  have mv: "move_assign_at T (Some a, p + n + 1) (Some a, p + n) h = Returns () ?h"
    using Suc.prems by (intro move_assign_at_live) simp_all
  have "std_move_backward T (Some a, p) n (Some a, p + n + 1) ?h
          = Returns (Some a, p + 1) (set_block a (map Some (shift_right (moved_from T) p n ?zs) @ R) ?h)"
    using Suc.prems a by (intro Suc.IH) simp_all
  then show ?case using mv by simp
qed

lemma std_move_live:
  assumes "at_block h a (map Some zs @ R)" "p + n < length zs"
    and "\<forall>k. p < k \<and> k \<le> p + n \<longrightarrow> \<not> throws (move_assign T) (zs ! k)"
  shows "std_move T (Some a, p + 1) n (Some a, p) h
           = Returns (Some a, p + n) (set_block a (map Some (shift_left (moved_from T) p n zs) @ R) h)"
  using assms(2,3)
proof (induction n)
  case 0
  then show ?case using assms(1) by (simp add: set_block_same)
next
  case (Suc n)
  let ?ws = "shift_left (moved_from T) p n zs"
  let ?h = "set_block a (map Some ?ws @ R) h"
  from assms(1) have a: "a < length (blocks h)" by (simp add: at_block_def)
  have step: "std_move T (Some a, p + 1) n (Some a, p) h = Returns (Some a, p + n) ?h"
    using Suc by simp
  have rd: "?ws ! (p + n + 1) = zs ! (p + n + 1)"
    using Suc.prems nth_shift_left[of p n zs "moved_from T"] by simp
  have "move_assign_at T (Some a, p + n) (Some a, p + n + 1) ?h
          = Returns () (set_block a (map Some (?ws[p + n := ?ws ! (p + n + 1), p + n + 1 := moved_from T (?ws ! (p + n + 1))]) @ R) ?h)"
    using Suc.prems a rd by (intro move_assign_at_live) simp_all
  then show ?case using step by (simp add: Let_def add.commute add.left_commute)
qed

lemma std_move_throws:
  assumes "at_block h a (map Some zs @ R)" "p + n < length zs"
    and "m < n" "throws (move_assign T) (zs ! (p + m + 1))"
    and "\<forall>k. p < k \<and> k \<le> p + m \<longrightarrow> \<not> throws (move_assign T) (zs ! k)"
  shows "std_move T (Some a, p + 1) n (Some a, p) h
           = Throws element_exception (set_block a (map Some (shift_left (moved_from T) p m zs) @ R) h)"
  using assms(2,3)
proof (induction n)
  case 0
  then show ?case by simp
next
  case (Suc n)
  show ?case
  proof (cases "m = n")
    case True
    let ?ws = "shift_left (moved_from T) p n zs"
    let ?h = "set_block a (map Some ?ws @ R) h"
    from assms(1) have a: "a < length (blocks h)" by (simp add: at_block_def)
    have step: "std_move T (Some a, p + 1) n (Some a, p) h = Returns (Some a, p + n) ?h"
      using Suc.prems assms(1,5) True by (intro std_move_live) simp_all
    have rd: "?ws ! (p + n + 1) = zs ! (p + n + 1)"
      using Suc.prems nth_shift_left[of p n zs "moved_from T"] by simp
    have "move_assign_at T (Some a, p + n) (Some a, p + n + 1) ?h = Throws element_exception ?h"
      using Suc.prems a rd assms(4) True
      by (intro move_assign_at_throws[where B="map Some ?ws @ R" and x="zs ! (p + n + 1)" and y="?ws ! (p + n)"])
         (simp_all add: nth_append)
    then show ?thesis using step True by (simp add: add.commute add.left_commute)
  next
    case False
    with Suc.prems have "m < n" by simp
    then have "std_move T (Some a, p + 1) n (Some a, p) h
           = Throws element_exception (set_block a (map Some (shift_left (moved_from T) p m zs) @ R) h)"
      using Suc by simp
    then show ?thesis by simp
  qed
qed

section \<open>Removing an element\<close>

lemma block_pop:
  "0 < length ws \<Longrightarrow> length ws \<le> c \<Longrightarrow>
   (map Some ws @ replicate (c - length ws) None)[length ws - 1 := None]
     = map Some (butlast ws) @ replicate (c - (length ws - 1)) None"
  by (rule nth_equalityI) (auto simp: nth_append nth_list_update nth_butlast)

lemma PopBack_block:
  assumes "holds v h xs" "xs \<noteq> []" "m_buffer (m_data v) = Some a"
  shows "PopBack (v, h)
           = Returns ()
               (v\<lparr>m_size := length xs - 1\<rparr>,
                set_block a (map Some (butlast xs) @ replicate (Capacity v - (length xs - 1)) None) h)"
proof -
  let ?B = "map Some xs @ replicate (Capacity v - length xs) None"
  from assms have S: "at_block h a ?B" and sz: "m_size v = length xs" and le: "length xs \<le> Capacity v"
    by (simp_all add: holds_Some)
  have pos: "0 < length xs" using assms(2) by simp
  then obtain k where k: "length xs = Suc k" by (cases xs) auto
  have "destroy_at (Some a, length xs - Suc 0) h = Returns () (set_block a (?B[length xs - Suc 0 := None]) h)"
    using S le k by (intro destroy_at_block[where y="xs ! (length xs - Suc 0)"]) (simp_all add: nth_append)
  then have d: "destroy_at (Some a, length xs - Suc 0) h
               = Returns () (set_block a (map Some (butlast xs) @ replicate (Capacity v - (length xs - 1)) None) h)"
    using block_pop[OF pos le] by simp
  have le': "length xs \<le> m_capacity (m_data v)" using le by (simp add: Capacity_def)
  show ?thesis
    unfolding PopBack_def
    by (simp add: sz assms(2) d on_heap_pair RawMemory_plus_ok[OF le'] assms(3))
qed

lemma PopBack_holds:
  assumes "holds v h xs" "xs \<noteq> []"
  shows "\<exists>v' h'. PopBack (v, h) = Returns () (v', h') \<and> holds v' h' (butlast xs) \<and> m_data v' = m_data v"
proof -
  from assms have "0 < Capacity v" by (cases xs) (auto simp: holds_def)
  then obtain a where a: "m_buffer (m_data v) = Some a"
    using holds_buffer[OF assms(1)] by auto
  let ?v = "v\<lparr>m_size := length xs - 1\<rparr>"
  let ?h = "set_block a (map Some (butlast xs) @ replicate (Capacity v - (length xs - 1)) None) h"
  obtain k where k: "length xs = Suc k" using assms(2) by (cases xs) auto
  have "holds ?v ?h (butlast xs)"
    using assms(1) a k by (simp add: holds_Some Capacity_def at_block_def set_block_def)
  then show ?thesis
    using PopBack_block[OF assms a] by simp
qed

lemma erased_list:
  assumes "p < length xs"
  shows "butlast (shift_left mf p (length xs - Suc p) xs) = take p xs @ drop (Suc p) xs"
proof (rule nth_equalityI)
  show "length (butlast (shift_left mf p (length xs - Suc p) xs)) = length (take p xs @ drop (Suc p) xs)"
    using assms by simp
next
  fix i assume "i < length (butlast (shift_left mf p (length xs - Suc p) xs))"
  then have i: "i < length xs - 1" by simp
  have "p + (length xs - Suc p) < length xs" using assms by simp
  from nth_shift_left[OF this, of mf] i
  have "shift_left mf p (length xs - Suc p) xs ! i = (if p \<le> i then xs ! (i + 1) else xs ! i)"
    using assms by auto
  then show "butlast (shift_left mf p (length xs - Suc p) xs) ! i = (take p xs @ drop (Suc p) xs) ! i"
    using i assms by (auto simp: nth_butlast nth_append)
qed

lemma Erase_block:
  assumes "holds v h xs" "p < length xs" "m_buffer (m_data v) = Some a"
    and "\<forall>k. p < k \<and> k < length xs \<longrightarrow> \<not> throws (move_assign T) (xs ! k)"
  shows "Erase T (Some a, p) (v, h)
           = Returns (Some a, p)
               (v\<lparr>m_size := length xs - 1\<rparr>,
                set_block a (map Some (take p xs @ drop (Suc p) xs)
                               @ replicate (Capacity v - (length xs - 1)) None) h)"
proof -
  define m where "m = length xs - Suc p"
  define ws where "ws = shift_left (moved_from T) p m xs"
  define R where "R = replicate (Capacity v - length xs) (None :: 'a option)"
  define h1 where "h1 = set_block a (map Some ws @ R) h"
  define h2 where "h2 = set_block a (map Some (butlast ws) @ replicate (Capacity v - (length ws - 1)) None) h1"
  from assms have S: "at_block h a (map Some xs @ R)" and sz: "m_size v = length xs"
    and le: "length xs \<le> Capacity v"
    by (simp_all add: holds_Some R_def)
  from S have a: "a < length (blocks h)" by (simp add: at_block_def)
  have pm: "p + m < length xs" using assms(2) by (simp add: m_def)
  have lw: "length ws = length xs" by (simp add: ws_def)
  have mv: "std_move T (Some a, p + 1) m (Some a, p) h = Returns (Some a, p + m) h1"
    unfolding h1_def ws_def using S pm assms(4) by (intro std_move_live) simp_all
  have hw: "holds v h1 ws"
    using a le sz assms(2,3) by (simp add: holds_Some h1_def lw R_def Capacity_def)
  have ne: "ws \<noteq> []" using lw assms(2) by auto
  have pb: "PopBack (v, h1) = Returns () (v\<lparr>m_size := length ws - 1\<rparr>, h2)"
    unfolding h2_def using hw ne assms(3) by (rule PopBack_block)
  have chk: "p < length xs" by (rule assms(2))
  have "Erase T (Some a, p) (v, h) = Returns (Some a, p) (v\<lparr>m_size := length ws - 1\<rparr>, h2)"
    unfolding Erase_def
    using mv pb chk
    by (simp add: Vector_begin_def Vector_end_def GetAddress_def assms(3) sz on_heap_pair m_def)
  moreover have "butlast ws = take p xs @ drop (Suc p) xs"
    unfolding ws_def m_def using assms(2) by (rule erased_list)
  ultimately show ?thesis
    by (simp add: h2_def h1_def lw)
qed

lemma Erase_throws:
  assumes "holds v h xs" "p < length xs" "m_buffer (m_data v) = Some a"
    and "p < k" "k < length xs" "throws (move_assign T) (xs ! k)"
  shows "\<exists>h'. Erase T (Some a, p) (v, h) = Throws element_exception (v, h')"
proof -
  define j where "j = (LEAST i. p < i \<and> i < length xs \<and> throws (move_assign T) (xs ! i))"
  have ex: "p < k \<and> k < length xs \<and> throws (move_assign T) (xs ! k)" using assms by simp
  have j: "p < j \<and> j < length xs \<and> throws (move_assign T) (xs ! j)"
    unfolding j_def using ex by (rule LeastI)
  have least: "\<And>i. p < i \<Longrightarrow> i < j \<Longrightarrow> \<not> throws (move_assign T) (xs ! i)"
  proof
    fix i assume i: "p < i" "i < j" and t: "throws (move_assign T) (xs ! i)"
    from i j have "i < length xs" by simp
    with i t have "j \<le> i" unfolding j_def by (intro Least_le) simp
    with i show False by simp
  qed
  define m where "m = j - Suc p"
  define n where "n = length xs - Suc p"
  define R where "R = replicate (Capacity v - length xs) (None :: 'a option)"
  from assms have S: "at_block h a (map Some xs @ R)" and sz: "m_size v = length xs"
    by (simp_all add: holds_Some R_def)
  from j have j1: "p < j" and j2: "j < length xs" by simp_all
  have pm: "p + m + 1 = j" "m < n" "p + n < length xs"
    unfolding m_def n_def using j1 j2 by linarith+
  have nt: "\<forall>i. p < i \<and> i \<le> p + m \<longrightarrow> \<not> throws (move_assign T) (xs ! i)"
    using least pm by auto
  have th: "throws (move_assign T) (xs ! (p + m + 1))" using j pm by simp
  have mv: "std_move T (Some a, p + 1) n (Some a, p) h
           = Throws element_exception (set_block a (map Some (shift_left (moved_from T) p m xs) @ R) h)"
    by (rule std_move_throws[OF S pm(3,2) th nt])
  have "Erase T (Some a, p) (v, h)
           = Throws element_exception (v, set_block a (map Some (shift_left (moved_from T) p m xs) @ R) h)"
    unfolding Erase_def
    using mv assms(2)
    by (simp add: Vector_begin_def Vector_end_def GetAddress_def assms(3) sz on_heap_pair n_def)
  then show ?thesis by blast
qed

section \<open>Inserting an element\<close>

lemma inserted_block:
  assumes "p \<le> length xs" "length xs < c"
  shows "overlay (overlay ((replicate c None)[p := Some x]) 0 (map Some (take p xs)))
           (Suc p) (map Some (drop p xs))
         = map Some (take p xs @ [x] @ drop p xs) @ replicate (c - Suc (length xs)) None"
    (is "?L = ?R")
proof -
  let ?D1 = "(replicate c None)[p := Some x]"
  let ?D2 = "overlay ?D1 0 (map Some (take p xs))"
  have l2: "length ?D2 = c" using assms by simp
  have l3: "length ?L = c" using assms l2 by simp
  have n2: "?D2 ! i = (if i < p then Some (xs ! i) else if i = p then Some x else None)"
    if "i < c" for i
    using that assms by (simp add: nth_overlay)
  have dr: "map Some (drop p xs) ! (i - Suc p) = Some (xs ! (i - 1))"
    if "Suc p \<le> i" "i < Suc (length xs)" for i
  proof -
    from that have "i - Suc p < length (drop p xs)" "p + (i - Suc p) = i - 1" by simp_all
    then show ?thesis using assms(1) by (simp del: length_drop add: nth_drop)
  qed
  have n3: "?L ! i = (if Suc p \<le> i \<and> i < Suc (length xs) then Some (xs ! (i - 1)) else ?D2 ! i)"
    if "i < c" for i
    using that assms l2 by (auto simp: nth_overlay dr)
  show ?thesis
  proof (rule nth_equalityI)
    show "length ?L = length ?R" using l3 assms by simp
  next
    fix i assume "i < length ?L"
    then have i: "i < c" using l3 by simp
    consider "i < p" | "i = p" | "p < i" "i \<le> length xs" | "length xs < i" by linarith
    then show "?L ! i = ?R ! i"
    proof cases
      case 1
      then show ?thesis using assms i n3[OF i] n2[OF i] by (simp add: nth_append)
    next
      case 2
      then show ?thesis using assms i n3[OF i] n2[OF i] by (simp add: nth_append)
    next
      case 3
      then show ?thesis using assms i n3[OF i] n2[OF i] by (auto simp: nth_append)
    next
      case 4
      then have "\<not> i - Suc p < length xs - p" using assms(1) by linarith
      with 4 show ?thesis using assms i n3[OF i] n2[OF i] by (simp add: nth_append)
    qed
  qed
qed


lemma Emplace_full:
  assumes "holds v h xs" "Capacity v = length xs" "0 < length xs" "m_buffer (m_data v) = Some a"
    and "p \<le> length xs"
    and "allocation_succeeds T (length xs * 2) h" "initial_value T args h = Returns x h" "relocation_succeeds T xs"
  shows "Emplace T (Some a, p) args (v, h)
           = Returns (Some (length (blocks h)), p)
               (\<lparr>m_data = \<lparr>m_buffer = Some (length (blocks h)), m_capacity = length xs * 2\<rparr>,
                 m_size = Suc (length xs)\<rparr>,
                released a (replicate (length xs) None)
                  (set_block a (replicate (length xs) None)
                     (set_block (length (blocks h))
                        (map Some (take p xs @ [x] @ drop p xs)
                           @ replicate (length xs * 2 - Suc (length xs)) None)
                        (allocated (length xs * 2) h))))"
proof -
  define n where "n = length xs"
  define b where "b = length (blocks h)"
  define nd where "nd = \<lparr>m_buffer = Some b, m_capacity = n * 2\<rparr>"
  define od where "od = \<lparr>m_buffer = Some a, m_capacity = n\<rparr>"
  define h1 where "h1 = allocated (n * 2) h"
  define S where "S = map Some xs @ replicate (Capacity v - length xs) None"
  define D1 where "D1 = (replicate (n * 2) (None :: 'a option))[p := Some x]"
  define h2 where "h2 = set_block b D1 h1"
  define D2 where "D2 = overlay D1 0 (map Some (take p xs))"
  define D3 where "D3 = overlay D2 (Suc p) (map Some (drop p xs))"
  define h5 where "h5 = set_block a (replicate n None) (set_block b D3 h1)"
  define h6 where "h6 = released a (replicate n None) h5"
  from assms have sz: "m_size v = n" and cap: "m_capacity (m_data v) = n" and n0: "n \<noteq> 0"
    and Sh: "at_block h a S" and pn: "p \<le> n" and lS: "length S = n"
    by (simp_all add: holds_Some Capacity_def n_def S_def)
  from Sh have ab: "a < b" "a \<noteq> b" by (simp_all add: at_block_def b_def)
  have new: "RawMemory_ctor T (n * 2) h = Returns nd h1"
    unfolding nd_def h1_def b_def n_def using assms(3,6) by (intro RawMemory_ctor_ok) simp_all
  have "construct_at (Some b, p) x h1 = Returns (Some b, p) h2"
    unfolding h2_def D1_def h1_def b_def using pn n0 by (intro construct_at_block) simp_all
  then have cons: "construct T (Some b, p) args h1 = Returns (Some b, p) h2"
    using initial_value_allocated[OF assms(7), of "n * 2"] by (simp add: construct_def h1_def)
  have S2: "at_block h2 a S"
    unfolding h2_def h1_def using at_block_allocated_old[OF Sh] ab(2) by simp
  have bD: "at_block h2 b D1"
    unfolding h2_def h1_def b_def by (simp add: allocated_def)
  have b2: "b < length (blocks h2)" using bD by (simp add: at_block_def)
  have a2: "a < length (blocks h2)" using S2 by (simp add: at_block_def)
  have lD1: "length D1 = n * 2" by (simp add: D1_def)
  have lD2: "length D2 = n * 2" using pn by (simp add: D2_def lD1 n_def)
  have srcA: "\<forall>k<p. S ! (0 + k) = Some (xs ! k)" using pn by (simp add: S_def nth_append n_def)
  have srcB: "\<forall>k<n - p. S ! (p + k) = Some (drop p xs ! k)"
    using pn by (auto simp: S_def nth_append n_def)
  have rawA: "\<forall>k<p. D1 ! (0 + k) = None" using pn n0 by (simp add: D1_def)
  have rawB: "\<forall>k<n - p. D2 ! (Suc p + k) = None"
    using pn n0 by (simp add: D2_def D1_def nth_overlay n_def)
  have bA: "0 + p \<le> length S" "0 + p \<le> length D1" "p \<le> length xs"
    using pn lS lD1 assms(5) by simp_all
  have bB: "p + (n - p) \<le> length S" "Suc p + (n - p) \<le> length D2"
    using pn lS lD2 n0 by simp_all
  have bB3: "n - p \<le> length (drop p xs)" by (simp add: n_def)
  note bB = bB bB3
  have tk: "take (n - p) (drop p xs) = drop p xs" by (simp add: n_def)
  have nb: "m_buffer nd = Some b" by (simp add: nd_def)
  have clear: "overlay S 0 (replicate n None) = replicate n None"
    using lS by (intro nth_equalityI) (simp_all add: nth_overlay)
  have "at_block h5 a (replicate n None)"
    using ab by (simp add: h5_def h1_def b_def at_block_def allocated_def set_block_def)
  then have dt: "RawMemory_dtor od h5 = Returns () h6"
    unfolding od_def h6_def by (rule RawMemory_dtor_block)
  have p1: "\<And>s. RawMemory_plus nd p s = Returns (Some b, p) s"
    using pn by (simp add: RawMemory_plus_ok nd_def)
  have sw: "RawMemory_Swap (m_data v) nd = (nd, od)"
    by (simp add: RawMemory_Swap_def nd_def od_def assms(4) cap)
  have main: "Emplace T (Some a, p) args (v, h) = Returns (Some b, p) (\<lparr>m_data = nd, m_size = Suc n\<rparr>, h6)"
  proof (cases "relocate_by_move T")
    case True
    define S1 where "S1 = overlay S 0 (map (\<lambda>y. Some (moved_from T y)) (take p xs))"
    define S2 where "S2 = overlay S1 p (map (\<lambda>y. Some (moved_from T y)) (drop p xs))"
    define h3 where "h3 = set_block a S1 (set_block b D2 h2)"
    define h4 where "h4 = set_block a S2 (set_block b D3 h3)"
    have nt: "\<forall>k<n. \<not> throws (move_ctor T) (xs ! k)"
      using relocation_succeeds_move[OF assms(8) True] by (simp add: n_def)
    have lS1: "length S1 = n" using pn lS by (simp add: S1_def n_def)
    have nt0: "\<forall>k<p. \<not> throws (move_ctor T) (xs ! k)" using nt pn by simp
    have m1: "uninitialized_move_n T (Some a, 0) p (Some b, 0) h2 = Returns (Some b, 0 + p) h3"
      unfolding h3_def S1_def D2_def
      by (rule uninitialized_move_n_block[OF S2 bD ab(2) bA srcA rawA nt0])
    have S3: "at_block h3 a S1" using a2 by (simp add: h3_def)
    have bD3: "at_block h3 b D2" using b2 ab(2) by (simp add: h3_def)
    have srcB': "\<forall>k<n - p. S1 ! (p + k) = Some (drop p xs ! k)"
      using srcB pn lS by (simp add: S1_def nth_overlay n_def)
    have nt': "\<forall>k<n - p. \<not> throws (move_ctor T) (drop p xs ! k)"
      using nt pn by (simp add: n_def)
    have bB1: "p + (n - p) \<le> length S1" using bB(1) lS lS1 by simp
    have m2: "uninitialized_move_n T (Some a, p) (n - p) (Some b, Suc p) h3 = Returns (Some b, Suc p + (n - p)) h4"
      using uninitialized_move_n_block[OF S3 bD3 ab(2) bB1 bB(2,3) srcB' rawB nt']
      by (simp only: tk h4_def S2_def D3_def)
    have lS2: "length S2 = n" using pn lS1 by (simp add: S2_def n_def)
    have live: "\<forall>k<n. S2 ! (0 + k) \<noteq> None"
      using pn lS lS1 srcA by (auto simp: S2_def S1_def nth_overlay n_def)
    have a4: "at_block h4 a S2"
      using a2 by (simp add: h4_def h3_def)
    have de: "destroy_n (Some a, 0) n h4 = Returns () (set_block a (overlay S2 0 (replicate n None)) h4)"
      using a4 lS2 live by (intro destroy_n_block) simp_all
    have "overlay S2 0 (replicate n None) = replicate n None"
      using lS2 by (intro nth_equalityI) (simp_all add: nth_overlay)
    moreover have "set_block a (replicate n None) h4 = h5"
      using ab(2) by (simp add: h4_def h3_def h5_def h2_def set_block_absorb)
    ultimately have de': "destroy_n (Some a, 0) n h4 = Returns () h5" using de by simp
    show ?thesis
      unfolding Emplace_def
      using True m1 m2 de' pn
      by (simp add: Vector_begin_def Vector_end_def GetAddress_def assms(4) sz Capacity_def cap n0
            new cons dt sw on_heap_pair unwinding_def p1 nb)
  next
    case False
    then obtain cc where cc: "copy_ctor T = Some cc" "\<forall>k<n. \<not> throws cc (xs ! k)"
      using relocation_succeeds_copy[OF assms(8)] by (auto simp: n_def)
    define h3 where "h3 = set_block b D2 h2"
    define h4 where "h4 = set_block b D3 h3"
    have nt0: "\<forall>k<p. \<not> throws cc (xs ! k)" using cc(2) pn by simp
    have c1: "uninitialized_copy_n T (Some a, 0) p (Some b, 0) h2 = Returns (Some b, 0 + p) h3"
      unfolding h3_def D2_def
      by (rule uninitialized_copy_n_block[OF S2 bD ab(2) cc(1) bA srcA rawA nt0])
    have S3: "at_block h3 a S" using S2 ab(2) by (simp add: h3_def)
    have bD3: "at_block h3 b D2" using b2 by (simp add: h3_def)
    have nt': "\<forall>k<n - p. \<not> throws cc (drop p xs ! k)"
      using cc(2) pn by (simp add: n_def)
    have c2: "uninitialized_copy_n T (Some a, p) (n - p) (Some b, Suc p) h3 = Returns (Some b, Suc p + (n - p)) h4"
      using uninitialized_copy_n_block[OF S3 bD3 ab(2) cc(1) bB srcB rawB nt']
      by (simp only: tk h4_def D3_def)
    have live: "\<forall>k<n. S ! (0 + k) \<noteq> None"
      by (simp add: S_def nth_append n_def)
    have a4: "at_block h4 a S"
      using S3 ab(2) by (simp add: h4_def)
    have de: "destroy_n (Some a, 0) n h4 = Returns () (set_block a (overlay S 0 (replicate n None)) h4)"
      using a4 lS live by (intro destroy_n_block) simp_all
    have "set_block a (replicate n None) h4 = h5"
      by (simp add: h4_def h3_def h5_def h2_def)
    then have de': "destroy_n (Some a, 0) n h4 = Returns () h5" using de clear by simp
    show ?thesis
      unfolding Emplace_def
      using False c1 c2 de' pn
      by (simp add: Vector_begin_def Vector_end_def GetAddress_def assms(4) sz Capacity_def cap n0
            new cons dt sw on_heap_pair unwinding_def p1 nb)
  qed
  have "D3 = map Some (take p xs @ [x] @ drop p xs) @ replicate (n * 2 - Suc n) None"
    unfolding D3_def D2_def D1_def n_def using assms(5,3) by (intro inserted_block) simp_all
  with main show ?thesis
    by (simp add: n_def b_def nd_def h6_def h5_def h1_def)
qed

lemma Emplace_from_empty:
  assumes "holds v h []" "Capacity v = 0" "allocation_succeeds T 1 h"
    and "initial_value T args h = Returns x h"
  shows "Emplace T (None, 0) args (v, h)
           = Returns (Some (length (blocks h)), 0)
               (\<lparr>m_data = \<lparr>m_buffer = Some (length (blocks h)), m_capacity = 1\<rparr>, m_size = 1\<rparr>,
                (set_block (length (blocks h)) [Some x] (allocated 1 h))
                   \<lparr>delete_calls := delete_calls h @ [None]\<rparr>)"
proof -
  define b where "b = length (blocks h)"
  define nd where "nd = \<lparr>m_buffer = Some b, m_capacity = Suc 0\<rparr>"
  define h1 where "h1 = (allocated (Suc 0) h :: 'a heap)"
  define h2 where "h2 = set_block b [Some x] h1"
  define h3 where "h3 = h2\<lparr>delete_calls := delete_calls h @ [None]\<rparr>"
  from assms have sz: "m_size v = 0" and buf: "m_buffer (m_data v) = None" and cap: "m_capacity (m_data v) = 0"
    by (auto simp: holds_def Capacity_def split: option.splits)
  have new: "RawMemory_ctor T (Suc 0) h = Returns nd h1"
    unfolding nd_def h1_def b_def using assms(3) by (intro RawMemory_ctor_ok) simp_all
  have "construct_at (Some b, 0) x h1 = Returns (Some b, 0) (set_block b ((replicate 1 None)[0 := Some x]) h1)"
    unfolding h1_def b_def by (intro construct_at_block) simp_all
  then have cons: "construct T (Some b, 0) args h1 = Returns (Some b, 0) h2"
    using initial_value_allocated[OF assms(4), of 1] by (simp add: construct_def h1_def h2_def)
  have dt: "RawMemory_dtor (m_data v) h2 = Returns () h3"
    by (simp add: RawMemory_dtor_def Deallocate_def operator_delete_def buf h3_def h2_def h1_def)
  have p1: "\<And>s. RawMemory_plus nd 0 s = Returns (Some b, 0) s"
    by (simp add: RawMemory_plus_ok nd_def)
  have sw: "RawMemory_Swap (m_data v) nd = (nd, m_data v)"
    by (simp add: RawMemory_Swap_def nd_def buf cap)
  have nb: "m_buffer nd = Some b" by (simp add: nd_def)
  have "Emplace T (None, 0) args (v, h) = Returns (Some b, 0) (\<lparr>m_data = nd, m_size = Suc 0\<rparr>, h3)"
    unfolding Emplace_def
    by (simp add: Vector_begin_def Vector_end_def GetAddress_def buf sz Capacity_def cap
          new cons dt sw on_heap_pair unwinding_def p1 nb)
  then show ?thesis
    by (simp add: b_def nd_def h3_def h2_def h1_def)
qed

lemma Emplace_at_end:
  assumes "holds v h xs" "length xs < Capacity v" "m_buffer (m_data v) = Some a"
    and "initial_value T args h = Returns x h"
  shows "Emplace T (Some a, length xs) args (v, h)
           = Returns (Some a, length xs)
               (v\<lparr>m_size := Suc (length xs)\<rparr>,
                set_block a (map Some (xs @ [x]) @ replicate (Capacity v - Suc (length xs)) None) h)"
proof -
  define n where "n = length xs"
  define h2 where "h2 = set_block a (map Some (xs @ [x]) @ replicate (Capacity v - Suc (length xs)) None) h"
  let ?S = "map Some xs @ replicate (Capacity v - length xs) None"
  from assms have S: "at_block h a ?S" and sz: "m_size v = n"
    by (simp_all add: holds_Some n_def)
  have "construct_at (Some a, length xs) x h = Returns (Some a, length xs) (set_block a (?S[length xs := Some x]) h)"
    using S assms(2) by (intro construct_at_block) (simp_all add: nth_append)
  then have c: "construct T (Some a, n) args h = Returns (Some a, n) h2"
    using assms(2,4) by (simp add: construct_def block_snoc n_def h2_def)
  have ne: "n \<noteq> m_capacity (m_data v)" and le: "n \<le> m_capacity (m_data v)"
    using assms(2) by (simp_all add: Capacity_def n_def)
  have "Emplace T (Some a, n) args (v, h) = Returns (Some a, n) (v\<lparr>m_size := Suc n\<rparr>, h2)"
    unfolding Emplace_def
    by (simp add: Vector_begin_def Vector_end_def GetAddress_def assms(3) sz Capacity_def ne c
          on_heap_pair RawMemory_plus_ok[OF le])
  then show ?thesis by (simp add: n_def h2_def)
qed

lemma move_construct_same_block:
  assumes "at_block h a B" "i < length B" "j < length B" "i \<noteq> j"
    and "B ! i = Some y" "B ! j = None" "\<not> throws (move_ctor T) y"
  shows "move_construct T (Some a, j) (Some a, i) h
           = Returns (Some a, j) (set_block a (B[j := Some y, i := Some (moved_from T y)]) h)"
proof -
  from assms have a: "a < length (blocks h)" by (simp add: at_block_def)
  have rd: "read_at (Some a, i) h = Returns y h"
    using assms by (intro read_at_block[where blk=B]) simp_all
  have cons: "construct_at (Some a, j) y h = Returns (Some a, j) (set_block a (B[j := Some y]) h)"
    using assms by (intro construct_at_block) simp_all
  have wr: "write_at (Some a, i) (moved_from T y) (set_block a (B[j := Some y]) h)
              = Returns () (set_block a (B[j := Some y, i := Some (moved_from T y)]) (set_block a (B[j := Some y]) h))"
    using assms a by (intro write_at_block[where y=y]) simp_all
  show ?thesis using rd cons wr assms(7) by (simp add: move_construct_def)
qed

lemma opened_block:
  assumes "length xs = Suc k" "Suc k < c"
  shows "(map Some xs @ replicate (c - Suc k) None)[Suc k := Some (xs ! k), k := Some (mf (xs ! k))]
           = map Some (xs[k := mf (xs ! k)] @ [xs ! k]) @ replicate (c - Suc (Suc k)) None"
  using assms by (intro nth_equalityI) (auto simp: nth_append nth_list_update)

lemma inserted_list:
  assumes "length xs = Suc k" "p \<le> k"
  shows "(shift_right mf p (k - p) (xs[k := mf (xs ! k)] @ [xs ! k]))[p := x] = take p xs @ [x] @ drop p xs"
    (is "?ws[p := x] = ?R")
proof (rule nth_equalityI)
  show "length (?ws[p := x]) = length ?R" using assms by simp
next
  fix i assume "i < length (?ws[p := x])"
  then have i: "i < Suc (Suc k)" using assms by simp
  let ?zs = "xs[k := mf (xs ! k)] @ [xs ! k]"
  have lz: "length ?zs = Suc (Suc k)" using assms by simp
  have "p + (k - p) < length ?zs" using assms lz by simp
  from nth_shift_right[OF this, of i mf] i lz
  have ws: "?ws ! i = (if i = p \<and> 0 < k - p then mf (?zs ! p)
                       else if p < i \<and> i \<le> p + (k - p) then ?zs ! (i - 1) else ?zs ! i)"
    by simp
  consider "i < p" | "i = p" | "p < i" "i \<le> k" | "i = Suc k" using i by linarith
  then show "?ws[p := x] ! i = ?R ! i"
  proof cases
    case 1
    then show ?thesis using ws assms i by (simp add: nth_append)
  next
    case 2
    then show ?thesis using assms lz by (simp add: nth_append)
  next
    case 3
    then have "i - 1 < k" "p + (i - Suc p) = i - 1" "i - Suc p < length xs - p" using assms by simp_all
    with 3 show ?thesis using ws assms i by (simp add: nth_append nth_drop)
  next
    case 4
    then have "p + (i - Suc p) = k" "i - Suc p < length xs - p" using assms by simp_all
    with 4 show ?thesis using ws assms i by (simp add: nth_append nth_drop)
  qed
qed


lemma Emplace_in_place:
  assumes "holds v h xs" "length xs = Suc k" "p \<le> k" "Suc k < Capacity v" "m_buffer (m_data v) = Some a"
    and "initial_value T args h = Returns x h"
    and "\<not> throws (move_ctor T) (xs ! k)"
    and "\<forall>i. p \<le> i \<and> i < k \<longrightarrow> \<not> throws (move_assign T) (xs ! i)"
    and "\<not> throws (move_assign T) x"
  shows "Emplace T (Some a, p) args (v, h)
           = Returns (Some a, p)
               (v\<lparr>m_size := Suc (Suc k)\<rparr>,
                set_block a (map Some (take p xs @ [x] @ drop p xs)
                               @ replicate (Capacity v - Suc (Suc k)) None) h)"
proof -
  define mf where "mf = moved_from T"
  define zs where "zs = xs[k := mf (xs ! k)] @ [xs ! k]"
  define R where "R = replicate (Capacity v - Suc (Suc k)) (None :: 'a option)"
  define B where "B = map Some xs @ replicate (Capacity v - Suc k) None"
  define h1 where "h1 = set_block a (map Some zs @ R) h"
  define ws where "ws = shift_right mf p (k - p) zs"
  define h2 where "h2 = set_block a (map Some ws @ R) h1"
  define h3 where "h3 = set_block a (map Some (ws[p := x]) @ R) h2"
  from assms have Bh: "at_block h a B" and sz: "m_size v = Suc k"
    by (simp_all add: holds_Some B_def)
  from Bh have a: "a < length (blocks h)" by (simp add: at_block_def)
  have lz: "length zs = Suc (Suc k)" using assms(2) by (simp add: zs_def)
  have lw: "length ws = Suc (Suc k)" using lz by (simp add: ws_def)
  have "move_construct T (Some a, Suc k) (Some a, k) h
          = Returns (Some a, Suc k) (set_block a (B[Suc k := Some (xs ! k), k := Some (moved_from T (xs ! k))]) h)"
    using Bh assms(2,4,7) by (intro move_construct_same_block) (simp_all add: B_def nth_append)
  moreover have "B[Suc k := Some (xs ! k), k := Some (mf (xs ! k))] = map Some zs @ R"
    unfolding B_def zs_def R_def using assms(2,4) by (rule opened_block)
  ultimately have mc: "move_construct T (Some a, Suc k) (Some a, k) h = Returns (Some a, Suc k) h1"
    by (simp add: h1_def mf_def)
  have z1: "at_block h1 a (map Some zs @ R)" using a by (simp add: h1_def)
  have nt: "\<forall>i. p \<le> i \<and> i < p + (k - p) \<longrightarrow> \<not> throws (move_assign T) (zs ! i)"
    using assms(2,3,8) by (auto simp: zs_def nth_append)
  have "std_move_backward T (Some a, p) (k - p) (Some a, p + (k - p) + 1) h1
          = Returns (Some a, p + 1) (set_block a (map Some (shift_right (moved_from T) p (k - p) zs) @ R) h1)"
    using z1 assms(3) lz nt by (intro std_move_backward_live) simp_all
  then have mb: "std_move_backward T (Some a, p) (k - p) (Some a, Suc k) h1 = Returns (Some a, Suc p) h2"
    using assms(3) by (simp add: h2_def ws_def mf_def)
  have w2: "at_block h2 a (map Some ws @ R)" using a by (simp add: h2_def h1_def)
  have "move_assign_value T (Some a, p) x h2 = Returns () (set_block a ((map Some ws @ R)[p := Some x]) h2)"
    using w2 assms(3,9) lw by (intro move_assign_value_block[where y="ws ! p"]) (simp_all add: nth_append)
  then have ma: "move_assign_value T (Some a, p) x h2 = Returns () h3"
    using assms(3) lw by (simp add: h3_def live_update)
  have ne: "Suc k \<noteq> m_capacity (m_data v)" and lt: "k < m_capacity (m_data v)"
    and le: "p \<le> m_capacity (m_data v)"
    using assms(3,4) by (simp_all add: Capacity_def)
  have "Emplace T (Some a, p) args (v, h) = Returns (Some a, p) (v\<lparr>m_size := Suc (Suc k)\<rparr>, h3)"
    unfolding Emplace_def
    using assms(3)
    by (simp add: Vector_begin_def Vector_end_def GetAddress_def assms(5) sz Capacity_def ne
          assms(6) mc mb ma on_heap_pair RawMemory_plus_ok[OF le] RawMemory_index_ok[OF lt])
  moreover have "ws[p := x] = take p xs @ [x] @ drop p xs"
    unfolding ws_def zs_def using assms(2,3) by (rule inserted_list)
  ultimately show ?thesis
    by (simp add: h3_def h2_def h1_def R_def)
qed

lemma in_place_succeedsD:
  assumes "in_place_succeeds T xs p x" "length xs = Suc k" "p \<le> k"
  shows "\<not> throws (move_ctor T) (xs ! k)"
    and "\<forall>i. p \<le> i \<and> i < k \<longrightarrow> \<not> throws (move_assign T) (xs ! i)"
    and "\<not> throws (move_assign T) x"
proof -
  from assms have ne: "xs \<noteq> []" and np: "p \<noteq> length xs" by auto
  from assms(1) np have A: "\<not> throws (move_ctor T) (last xs)"
    and B: "list_all (\<lambda>y. \<not> throws (move_assign T) y) (drop p (butlast xs))"
    and C: "\<not> throws (move_assign T) x"
    by (simp_all add: in_place_succeeds_def)
  from A ne assms(2) show "\<not> throws (move_ctor T) (xs ! k)" by (simp add: last_conv_nth)
  from C show "\<not> throws (move_assign T) x" .
  show "\<forall>i. p \<le> i \<and> i < k \<longrightarrow> \<not> throws (move_assign T) (xs ! i)"
  proof (intro allI impI)
    fix i assume i: "p \<le> i \<and> i < k"
    then have "i - p < k - p" by linarith
    then have "i - p < length (drop p (butlast xs))" using assms(2) by simp
    moreover from B have "\<forall>n<length (drop p (butlast xs)). \<not> throws (move_assign T) (drop p (butlast xs) ! n)"
      by (simp only: list_all_length)
    ultimately have "\<not> throws (move_assign T) (drop p (butlast xs) ! (i - p))"
      by blast
    moreover have "drop p (butlast xs) ! (i - p) = xs ! i"
      using i assms(2,3) by (simp add: nth_butlast)
    ultimately show "\<not> throws (move_assign T) (xs ! i)" by simp
  qed
qed

lemma Emplace_holds:
  assumes "holds v h xs" "p \<le> length xs" "initial_value T args h = Returns x h"
    and "if Capacity v = length xs
         then allocation_succeeds T (if xs = [] then 1 else length xs * 2) h \<and> relocation_succeeds T xs
         else in_place_succeeds T xs p x"
  shows "\<exists>v' h'. Emplace T (m_buffer (m_data v), p) args (v, h) = Returns (m_buffer (m_data v'), p) (v', h') \<and>
           holds v' h' (take p xs @ [x] @ drop p xs)"
proof (cases "Capacity v = length xs")
  case True
  then have mem: "allocation_succeeds T (if xs = [] then 1 else length xs * 2) h" and rs: "relocation_succeeds T xs"
    using assms(4) by simp_all
  show ?thesis
  proof (cases "xs = []")
    case True
    with \<open>Capacity v = length xs\<close> have cap: "Capacity v = 0" by simp
    have e: "holds v h []" using assms(1) True by simp
    have buf: "m_buffer (m_data v) = None" using holds_capacity_0[OF assms(1) cap] by simp
    have m: "allocation_succeeds T 1 h" using mem True by simp
    have p0: "p = 0" using assms(2) True by simp
    let ?b = "length (blocks h)"
    let ?v = "\<lparr>m_data = \<lparr>m_buffer = Some ?b, m_capacity = 1\<rparr>, m_size = 1\<rparr>"
    let ?h = "(set_block ?b [Some x] (allocated 1 h))\<lparr>delete_calls := delete_calls h @ [None]\<rparr>"
    have "holds ?v ?h [x]"
      by (simp add: holds_def Capacity_def set_block_def allocated_def)
    then show ?thesis
      using Emplace_from_empty[OF e cap m assms(3)] True buf p0 by auto
  next
    case False
    then have pos: "0 < length xs" by simp
    with \<open>Capacity v = length xs\<close> obtain a where a: "m_buffer (m_data v) = Some a"
      using holds_buffer[OF assms(1)] by auto
    have m: "allocation_succeeds T (length xs * 2) h" using mem False by simp
    from assms(1) a have "a < length (blocks h)" by (simp add: holds_Some at_block_def)
    then have ab: "a \<noteq> length (blocks h)" by simp
    let ?b = "length (blocks h)"
    let ?v = "\<lparr>m_data = \<lparr>m_buffer = Some ?b, m_capacity = length xs * 2\<rparr>, m_size = Suc (length xs)\<rparr>"
    let ?D = "map Some (take p xs @ [x] @ drop p xs) @ replicate (length xs * 2 - Suc (length xs)) None"
    let ?h = "released a (replicate (length xs) None)
                (set_block a (replicate (length xs) None) (set_block ?b ?D (allocated (length xs * 2) h)))"
    have "at_block ?h ?b ?D"
      using ab by (simp add: at_block_def released_def set_block_def allocated_def)
    then have "holds ?v ?h (take p xs @ [x] @ drop p xs)"
      using pos assms(2) by (cases xs) (simp_all add: holds_Some Capacity_def)
    then show ?thesis
      using Emplace_full[OF assms(1) \<open>Capacity v = length xs\<close> pos a assms(2) m assms(3) rs] a by auto
  qed
next
  case False
  with assms(1) have lt: "length xs < Capacity v" by (simp add: holds_def)
  then obtain a where a: "m_buffer (m_data v) = Some a"
    using holds_buffer[OF assms(1)] by auto
  from False assms(4) have ips: "in_place_succeeds T xs p x" by simp
  show ?thesis
  proof (cases "p = length xs")
    case True
    let ?v = "v\<lparr>m_size := Suc (length xs)\<rparr>"
    let ?h = "set_block a (map Some (xs @ [x]) @ replicate (Capacity v - Suc (length xs)) None) h"
    have "holds ?v ?h (xs @ [x])"
      using assms(1) lt a by (simp add: holds_Some Capacity_def at_block_def set_block_def)
    then show ?thesis
      using Emplace_at_end[OF assms(1) lt a assms(3)] a True by auto
  next
    case False
    with assms(2) have "p < length xs" by simp
    then obtain k where k: "length xs = Suc k" "p \<le> k" by (cases xs) auto
    have lt': "Suc k < Capacity v" using lt k by simp
    let ?ys = "take p xs @ [x] @ drop p xs"
    let ?v = "v\<lparr>m_size := Suc (Suc k)\<rparr>"
    let ?h = "set_block a (map Some ?ys @ replicate (Capacity v - Suc (Suc k)) None) h"
    have "holds ?v ?h ?ys"
      using assms(1) lt' a k by (simp add: holds_Some Capacity_def at_block_def set_block_def)
    then show ?thesis
      using Emplace_in_place[OF assms(1) k lt' a assms(3) in_place_succeedsD[OF ips k]] a by auto
  qed
qed

section \<open>A copy that throws while the elements are relocated\<close>

lemma TransferAndSwap_copy_throws:
  assumes "holds v h xs" "m_buffer (m_data v) = Some a" "at_block h b D" "a \<noteq> b"
    and "length xs \<le> length D" "\<forall>k<length xs. D ! k = None"
    and "\<not> relocate_by_move T" "copy_ctor T = Some c"
    and "m < length xs" "throws c (xs ! m)" "\<forall>k<m. \<not> throws c (xs ! k)"
    and "m_buffer nd = Some b"
  shows "TransferAndSwap T nd (v, h) = Throws element_exception (v, h)"
proof -
  let ?S = "map Some xs @ replicate (Capacity v - length xs) None"
  from assms have S: "at_block h a ?S" and sz: "m_size v = length xs" and cap: "length xs \<le> Capacity v"
    by (simp_all add: holds_Some)
  have b1: "0 + length xs \<le> length ?S" "0 + length xs \<le> length D" "length xs \<le> length xs"
    using cap assms(5) by simp_all
  have src: "\<forall>k<length xs. ?S ! (0 + k) = Some (xs ! k)" by (simp add: nth_append)
  have raw: "\<forall>k<length xs. D ! (0 + k) = None" using assms(6) by simp
  have "uninitialized_copy_n T (Some a, 0) (length xs) (Some b, 0) h = Throws element_exception h"
    by (rule uninitialized_copy_n_throws[OF S assms(3,4,8) b1 src raw assms(9,10,11)])
  then show ?thesis
    using assms(7) sz assms(2,12)
    by (simp add: TransferAndSwap_def Vector_begin_def GetAddress_def on_heap_pair)
qed

lemma released_allocated:
  "n \<le> avail h \<Longrightarrow>
   released (length (blocks h)) (replicate n None) (allocated n h)
     = h\<lparr>blocks := blocks h @ [None], delete_calls := delete_calls h @ [Some (length (blocks h))]\<rparr>"
  by (simp add: released_def allocated_def)

lemma holds_frame:
  "holds v h xs \<Longrightarrow> blocks h' = blocks h @ bs \<Longrightarrow> holds v h' xs"
  by (auto simp: holds_def nth_append split: option.splits)

lemma Reserve_copy_throws:
  assumes "holds v h xs" "Capacity v < n" "allocation_succeeds T n h"
    and "\<not> relocate_by_move T" "copy_ctor T = Some c"
    and "m < length xs" "throws c (xs ! m)" "\<forall>k<m. \<not> throws c (xs ! k)"
  shows "Reserve T n (v, h)
           = Throws element_exception
               (v, h\<lparr>blocks := blocks h @ [None],
                      delete_calls := delete_calls h @ [Some (length (blocks h))]\<rparr>)"
proof -
  define b where "b = length (blocks h)"
  define nd where "nd = \<lparr>m_buffer = Some b, m_capacity = n\<rparr>"
  define h1 where "h1 = allocated n h"
  define h2 where "h2 = released b (replicate n None) h1"
  from assms(1,6) have "0 < Capacity v" by (simp add: holds_def)
  then obtain a where a: "m_buffer (m_data v) = Some a"
    using holds_buffer[OF assms(1)] by auto
  from assms(1) a have "a < length (blocks h)" and le: "length xs \<le> Capacity v"
    by (simp_all add: holds_Some at_block_def)
  then have ab: "a \<noteq> b" by (simp add: b_def)
  have gt: "\<not> n \<le> m_capacity (m_data v)" "0 < n" using assms(2) by (simp_all add: Capacity_def)
  have new: "RawMemory_ctor T n h = Returns nd h1"
    unfolding nd_def h1_def b_def using gt(2) assms(3) by (rule RawMemory_ctor_ok)
  have hh: "holds v h1 xs" unfolding h1_def using assms(1) by (rule holds_allocated)
  have bD: "at_block h1 b (replicate n None)" unfolding h1_def b_def by simp
  have le': "length xs \<le> length (replicate n (None :: 'a option))"
    and raw: "\<forall>k<length xs. replicate n (None :: 'a option) ! k = None"
    using le assms(2) by simp_all
  have nb: "m_buffer nd = Some b" by (simp add: nd_def)
  have ts: "TransferAndSwap T nd (v, h1) = Throws element_exception (v, h1)"
    by (rule TransferAndSwap_copy_throws[OF hh a bD ab le' raw assms(4-) nb])
  have dt: "RawMemory_dtor nd h1 = Returns () h2"
    unfolding nd_def h2_def using bD by (rule RawMemory_dtor_block)
  have "Reserve T n (v, h) = Throws element_exception (v, h2)"
    unfolding Reserve_def
    by (simp add: gt new ts dt on_heap_pair unwinding_def)
  then show ?thesis
    using released_allocated[OF allocation_succeeds_avail[OF assms(3)]] by (simp add: h2_def h1_def b_def)
qed

lemma EmplaceBack_copy_throws:
  assumes "holds v h xs" "Capacity v = length xs" "allocation_succeeds T (length xs * 2) h"
    and "initial_value T args h = Returns x h"
    and "\<not> relocate_by_move T" "copy_ctor T = Some c"
    and "m < length xs" "throws c (xs ! m)" "\<forall>k<m. \<not> throws c (xs ! k)"
  shows "EmplaceBack T args (v, h)
           = Throws element_exception
               (v, h\<lparr>blocks := blocks h @ [None],
                      delete_calls := delete_calls h @ [Some (length (blocks h))]\<rparr>)"
proof -
  define n where "n = length xs"
  define b where "b = length (blocks h)"
  define nd where "nd = \<lparr>m_buffer = Some b, m_capacity = n * 2\<rparr>"
  define h1 where "h1 = allocated (n * 2) h"
  define D1 where "D1 = (replicate (n * 2) (None :: 'a option))[n := Some x]"
  define h2 where "h2 = set_block b D1 h1"
  define h4 where "h4 = released b (replicate (n * 2) None) h1"
  from assms(7) have pos: "0 < n" and n0: "n \<noteq> 0" by (auto simp: n_def)
  from assms(1,2,7) have "0 < Capacity v" by auto
  then obtain a where a: "m_buffer (m_data v) = Some a"
    using holds_buffer[OF assms(1)] by auto
  from assms(1,2) a have sz: "m_size v = n" and cap: "m_capacity (m_data v) = n"
    and "a < length (blocks h)"
    by (simp_all add: holds_Some Capacity_def n_def at_block_def)
  then have ab: "a \<noteq> b" by (simp add: b_def)
  have new: "RawMemory_ctor T (n * 2) h = Returns nd h1"
    unfolding nd_def h1_def b_def using pos assms(3) by (intro RawMemory_ctor_ok) (simp_all add: n_def)
  have "construct_at (Some b, n) x h1 = Returns (Some b, n) h2"
    unfolding h2_def D1_def h1_def b_def using pos by (intro construct_at_block) simp_all
  then have cons: "construct T (Some b, n) args h1 = Returns (Some b, n) h2"
    using initial_value_allocated[OF assms(4), of "n * 2"] by (simp add: construct_def h1_def)
  have hh: "holds v h2 xs"
    unfolding h2_def h1_def using holds_set_block_other[OF holds_allocated[OF assms(1)] a ab] .
  have bD: "at_block h2 b D1"
    unfolding h2_def h1_def b_def by (simp add: allocated_def)
  have le': "length xs \<le> length D1" and raw: "\<forall>k<length xs. D1 ! k = None"
    by (simp_all add: D1_def n_def)
  have nb: "m_buffer nd = Some b" by (simp add: nd_def)
  have ts: "TransferAndSwap T nd (v, h2) = Throws element_exception (v, h2)"
    by (rule TransferAndSwap_copy_throws[OF hh a bD ab le' raw assms(5-) nb])
  have "destroy_at (Some b, n) h2 = Returns () (set_block b (D1[n := None]) h2)"
    using bD pos by (intro destroy_at_block[where y=x]) (simp_all add: D1_def)
  moreover have "D1[n := None] = replicate (n * 2) None"
    by (rule nth_equalityI) (auto simp: D1_def nth_list_update)
  moreover have "set_block b (replicate (n * 2) None) h1 = h1"
    by (intro set_block_same) (simp add: h1_def b_def)
  ultimately have de: "destroy_at (Some b, n) h2 = Returns () h1"
    by (simp add: h2_def)
  have "at_block h1 b (replicate (n * 2) None)" by (simp add: h1_def b_def)
  then have dt: "RawMemory_dtor nd h1 = Returns () h4"
    unfolding nd_def h4_def by (rule RawMemory_dtor_block)
  have p: "\<And>s. RawMemory_plus nd n s = Returns (Some b, n) s"
    by (simp add: RawMemory_plus_ok nd_def)
  have "EmplaceBack T args (v, h) = Throws element_exception (v, h4)"
    unfolding EmplaceBack_def
    by (simp add: sz Capacity_def cap n0 new cons ts de dt p nb on_heap_pair unwinding_def GetAddress_def)
  then show ?thesis
    using released_allocated[OF allocation_succeeds_avail[OF assms(3)]] by (simp add: h4_def h1_def b_def n_def)
qed

lemma destroy_n_raw_first:
  "at_block h b D \<Longrightarrow> 0 < length D \<Longrightarrow> D ! 0 = None \<Longrightarrow> destroy_n (Some b, 0) (Suc k) h = Fault"
proof (induction k)
  case 0
  then show ?case by (simp add: destroy_at_def slot_def at_block_def)
next
  case (Suc k)
  then have "destroy_n (Some b, 0) (Suc k) h = Fault" by simp
  then show ?case by (simp del: destroy_n.simps(2) add: destroy_n.simps(2)[of _ "Suc k"])
qed

lemma Emplace_prefix_copy_faults:
  assumes "holds v h xs" "Capacity v = length xs" "m_buffer (m_data v) = Some a"
    and "p \<le> length xs" "allocation_succeeds T (length xs * 2) h" "initial_value T args h = Returns x h"
    and "\<not> relocate_by_move T" "copy_ctor T = Some c"
    and "m < p" "throws c (xs ! m)" "\<forall>k<m. \<not> throws c (xs ! k)"
  shows "Emplace T (Some a, p) args (v, h) = Fault"
proof -
  define n where "n = length xs"
  define b where "b = length (blocks h)"
  define nd where "nd = \<lparr>m_buffer = Some b, m_capacity = n * 2\<rparr>"
  define h1 where "h1 = allocated (n * 2) h"
  define S where "S = map Some xs @ replicate (Capacity v - length xs) None"
  define D1 where "D1 = (replicate (n * 2) (None :: 'a option))[p := Some x]"
  define h2 where "h2 = set_block b D1 h1"
  from assms have pos: "0 < n" and n0: "n \<noteq> 0" and pn: "p \<le> n" and p0: "0 < p" by (auto simp: n_def)
  from assms have sz: "m_size v = n" and cap: "m_capacity (m_data v) = n"
    and Sh: "at_block h a S" and lS: "length S = n"
    by (simp_all add: holds_Some Capacity_def n_def S_def)
  from Sh have ab: "a \<noteq> b" by (simp add: at_block_def b_def)
  have new: "RawMemory_ctor T (n * 2) h = Returns nd h1"
    unfolding nd_def h1_def b_def using pos assms(5) by (intro RawMemory_ctor_ok) (simp_all add: n_def)
  have "construct_at (Some b, p) x h1 = Returns (Some b, p) h2"
    unfolding h2_def D1_def h1_def b_def using pn pos by (intro construct_at_block) simp_all
  then have cons: "construct T (Some b, p) args h1 = Returns (Some b, p) h2"
    using initial_value_allocated[OF assms(6), of "n * 2"] by (simp add: construct_def h1_def)
  have S2: "at_block h2 a S"
    unfolding h2_def h1_def using at_block_allocated_old[OF Sh] ab by simp
  have bD: "at_block h2 b D1"
    unfolding h2_def h1_def b_def by (simp add: allocated_def)
  have lD1: "length D1 = n * 2" by (simp add: D1_def)
  have bA: "0 + p \<le> length S" "0 + p \<le> length D1" "p \<le> length xs"
    using pn lS lD1 assms(4) by simp_all
  have srcA: "\<forall>k<p. S ! (0 + k) = Some (xs ! k)" using pn by (simp add: S_def nth_append n_def)
  have rawA: "\<forall>k<p. D1 ! (0 + k) = None" using pn pos by (simp add: D1_def)
  have c1: "uninitialized_copy_n T (Some a, 0) p (Some b, 0) h2 = Throws element_exception h2"
    by (rule uninitialized_copy_n_throws[OF S2 bD ab assms(8) bA srcA rawA assms(9,10,11)])
  have "D1 ! 0 = None" using p0 pos by (simp add: D1_def)
  then have de: "destroy_n (Some b, 0) (Suc p) h2 = Fault"
    using bD lD1 pos by (intro destroy_n_raw_first[where D=D1]) simp_all
  have p1: "\<And>s. RawMemory_plus nd p s = Returns (Some b, p) s"
    using pn by (simp add: RawMemory_plus_ok nd_def)
  have nb: "m_buffer nd = Some b" by (simp add: nd_def)
  show ?thesis
    unfolding Emplace_def
    using assms(7) c1 de pn
    by (simp add: Vector_begin_def Vector_end_def GetAddress_def assms(3) sz Capacity_def cap n0
          new cons on_heap_pair unwinding_def p1 nb)
qed

section \<open>Appending\<close>

text \<open>
  Claim C1. Let the vector be full (size equal to capacity) and hold \<open>xs\<close>, and let
  \<open>i\<close> be an index into it. Then \<^verbatim>\<open>v.PushBack(v[i])\<close>, where the argument is the
  reference that \<^verbatim>\<open>operator[]\<close> returns, appends a copy of the original element:
  afterwards the vector holds \<open>xs\<close> followed by \<open>xs ! i\<close>, in the region that the call
  has allocated, of twice the size. The new element is built in the new region from
  the element that is still alive in the old one; a read of a destroyed element would
  be a fault in this model and a read of a moved-from element would give \<open>moved_from\<close>
  of its value. The old elements are destroyed and their region is given back: the
  call makes one call of \<^verbatim>\<open>operator delete\<close>, on the old region, the reference
  \<^verbatim>\<open>v[i]\<close> taken before the call points at no storage any more, and no object was
  alive in the region when it was released (\<open>leaked\<close> has not grown). The call is one
  that completes: the new region can be allocated, and the copy constructor throws
  neither on the appended element nor, if the elements are relocated by copy, on them.
\<close>

theorem PushBack_of_own_element:
  assumes "holds v h xs" and "Capacity v = length xs" and "i < length xs"
    and "allocation_succeeds T (length xs * 2) h"
    and "copy_ctor T = Some c" and "\<not> throws c (xs ! i)"
    and "relocation_succeeds T xs"
  shows "\<exists>r v' h'. Vector_index v i (v, h) = Returns r (v, h) \<and>
           PushBack T (CopyOf r) (v, h) = Returns () (v', h') \<and>
           holds v' h' (xs @ [xs ! i]) \<and> Capacity v' = length xs * 2 \<and>
           m_buffer (m_data v') = Some (length (blocks h)) \<and>
           delete_calls h' = delete_calls h @ [m_buffer (m_data v)] \<and>
           slot h' r = None \<and> leaked h' = leaked h"
proof -
  have pos: "0 < length xs" using assms(3) by (cases xs) simp_all
  have "0 < Capacity v" using pos assms(2) by simp
  then obtain a where a: "m_buffer (m_data v) = Some a"
    using holds_buffer[OF assms(1)] by auto
  from assms(1) a have al: "a < length (blocks h)" by (simp add: holds_Some at_block_def)
  let ?r = "(Some a, i)"
  let ?b = "length (blocks h)"
  let ?v = "\<lparr>m_data = \<lparr>m_buffer = Some ?b, m_capacity = length xs * 2\<rparr>, m_size = Suc (length xs)\<rparr>"
  let ?D = "map Some (xs @ [xs ! i]) @ replicate (length xs * 2 - Suc (length xs)) None"
  let ?h = "released a (replicate (length xs) None)
              (set_block a (replicate (length xs) None) (set_block ?b ?D (allocated (length xs * 2) h)))"
  have ix: "Vector_index v i (v, h) = Returns ?r (v, h)"
    using Vector_index_holds[OF assms(1,3)] a by simp
  have iv: "initial_value T (CopyOf ?r) h = Returns (xs ! i) h"
    using read_at_holds[OF assms(1,3)] assms(5,6) a by (simp add: copy_value_ok)
  have eb: "EmplaceBack T (CopyOf ?r) (v, h) = Returns (Some ?b, length xs) (?v, ?h)"
    by (rule EmplaceBack_full[OF assms(1,2) pos a assms(4) iv assms(7)])
  have "at_block ?h ?b ?D"
    using al by (simp add: at_block_def released_def set_block_def allocated_def)
  then have hv: "holds ?v ?h (xs @ [xs ! i])"
    using pos by (cases xs) (simp_all add: holds_Some Capacity_def)
  have gone: "slot ?h ?r = None"
    using al by (simp add: slot_def released_def set_block_def allocated_def)
  have "PushBack T (CopyOf ?r) (v, h) = Returns () (?v, ?h)"
    using eb by (simp add: PushBack_def)
  moreover have "Capacity ?v = length xs * 2" "m_buffer (m_data ?v) = Some ?b"
    by (simp_all add: Capacity_def)
  moreover have "delete_calls ?h = delete_calls h @ [m_buffer (m_data v)]" "leaked ?h = leaked h"
    using a by simp_all
  ultimately show ?thesis using ix hv gone by blast
qed

theorem PushBack_of_own_element_witness:
  "holds \<lparr>m_data = \<lparr>m_buffer = Some 0, m_capacity = 2\<rparr>, m_size = 2\<rparr>
         \<lparr>blocks = [Some [Some ''ab'', Some ''cd'']], avail = 62, delete_calls = [None], leaked = 0\<rparr>
         [''ab'', ''cd''] \<and>
   allocation_succeeds emptied 4
     \<lparr>blocks = [Some [Some ''ab'', Some ''cd'']], avail = 62, delete_calls = [None], leaked = 0\<rparr> \<and>
   relocation_succeeds emptied [''ab'', ''cd''] \<and>
   (\<exists>r v' h'.
      Vector_index \<lparr>m_data = \<lparr>m_buffer = Some 0, m_capacity = 2\<rparr>, m_size = 2\<rparr> 0
        (\<lparr>m_data = \<lparr>m_buffer = Some 0, m_capacity = 2\<rparr>, m_size = 2\<rparr>,
         \<lparr>blocks = [Some [Some ''ab'', Some ''cd'']], avail = 62, delete_calls = [None], leaked = 0\<rparr>)
      = Returns r
        (\<lparr>m_data = \<lparr>m_buffer = Some 0, m_capacity = 2\<rparr>, m_size = 2\<rparr>,
         \<lparr>blocks = [Some [Some ''ab'', Some ''cd'']], avail = 62, delete_calls = [None], leaked = 0\<rparr>) \<and>
      PushBack emptied (CopyOf r)
        (\<lparr>m_data = \<lparr>m_buffer = Some 0, m_capacity = 2\<rparr>, m_size = 2\<rparr>,
         \<lparr>blocks = [Some [Some ''ab'', Some ''cd'']], avail = 62, delete_calls = [None], leaked = 0\<rparr>)
      = Returns () (v', h') \<and>
      holds v' h' [''ab'', ''cd'', ''ab''] \<and> Capacity v' = 4 \<and>
      m_buffer (m_data v') = Some 1 \<and> delete_calls h' = [None, Some 0] \<and>
      slot h' r = None \<and> leaked h' = 0)"
proof -
  let ?v = "\<lparr>m_data = \<lparr>m_buffer = Some 0, m_capacity = 2\<rparr>, m_size = 2\<rparr>"
  let ?h = "\<lparr>blocks = [Some [Some ''ab'', Some ''cd'']], avail = 62, delete_calls = [None], leaked = 0\<rparr>"
  have a: "holds ?v ?h [''ab'', ''cd'']" by (simp add: holds_def Capacity_def)
  have b: "relocation_succeeds emptied [''ab'', ''cd'']"
    by (simp add: relocation_succeeds_def relocate_by_move_def is_nothrow_move_constructible_def emptied_def)
  have c: "copy_ctor emptied = Some (MayThrow (\<lambda>x. False))" by (simp add: emptied_def)
  have d: "allocation_succeeds emptied 4 ?h" by (simp add: allocation_succeeds_def emptied_def)
  have d': "allocation_succeeds emptied (length [''ab'', ''cd''] * 2) ?h" using d by simp
  from PushBack_of_own_element[of ?v ?h "[''ab'', ''cd'']" 0 emptied "MayThrow (\<lambda>x. False)", OF a _ _ d' c _ b]
  show ?thesis using a b d by (simp add: Capacity_def)
qed

text \<open>
  Claim C10. Whenever \<^verbatim>\<open>EmplaceBack\<close> returns, the reference that it returns is to the
  slot at index size - 1 of the vector as it is after the call, whatever the arguments
  and whichever path was taken. When the vector holds \<open>xs\<close>, the constructor call on the
  arguments yields \<open>x\<close>, and (should the vector be full) the new region can be
  allocated and relocation does not throw, then the call returns, the vector holds
  \<open>xs\<close> followed by \<open>x\<close>, and the object at the returned reference is that \<open>x\<close>.
\<close>

theorem EmplaceBack_returns_last_element:
  "(\<forall>r v' h'. EmplaceBack T a (v, h) = Returns r (v', h') \<longrightarrow>
      r = (m_buffer (m_data v'), m_size v' - 1) \<and> m_size v' = Suc (m_size v)) \<and>
   (holds v h xs \<and> initial_value T a h = Returns x h \<and>
    (Capacity v = length xs \<longrightarrow>
       allocation_succeeds T (if xs = [] then 1 else length xs * 2) h \<and> relocation_succeeds T xs) \<longrightarrow>
    (\<exists>v' h'. EmplaceBack T a (v, h) = Returns (m_buffer (m_data v'), m_size v' - 1) (v', h') \<and>
       holds v' h' (xs @ [x]) \<and>
       read_at (m_buffer (m_data v'), m_size v' - 1) h' = Returns x h'))"
proof (rule conjI; (intro allI impI)?)
  fix r v' h'
  assume eb: "EmplaceBack T a (v, h) = Returns r (v', h')"
  from EmplaceBack_Returns(1,3)[OF eb]
  show "r = (m_buffer (m_data v'), m_size v' - 1) \<and> m_size v' = Suc (m_size v)" by simp
next
  assume A: "holds v h xs \<and> initial_value T a h = Returns x h \<and>
    (Capacity v = length xs \<longrightarrow>
       allocation_succeeds T (if xs = [] then 1 else length xs * 2) h \<and> relocation_succeeds T xs)"
  then have hv: "holds v h xs" and iv: "initial_value T a h = Returns x h"
    and full: "Capacity v = length xs \<Longrightarrow>
       allocation_succeeds T (if xs = [] then 1 else length xs * 2) h \<and> relocation_succeeds T xs"
    by simp_all
  from EmplaceBack_holds[OF hv iv full]
  obtain v' h' where eb: "EmplaceBack T a (v, h) = Returns (m_buffer (m_data v'), length xs) (v', h')"
    and hv': "holds v' h' (xs @ [x])"
    by blast
  from hv' have sz: "m_size v' - 1 = length xs" by (simp add: holds_def)
  have "read_at (m_buffer (m_data v'), length xs) h' = Returns ((xs @ [x]) ! length xs) h'"
    using hv' by (intro read_at_holds) simp_all
  with eb hv' sz
  show "\<exists>v' h'. EmplaceBack T a (v, h) = Returns (m_buffer (m_data v'), m_size v' - 1) (v', h') \<and>
       holds v' h' (xs @ [x]) \<and>
       read_at (m_buffer (m_data v'), m_size v' - 1) h' = Returns x h'"
    by auto
qed

theorem EmplaceBack_returns_last_element_witness:
  "holds \<lparr>m_data = \<lparr>m_buffer = Some 0, m_capacity = 2\<rparr>, m_size = 1\<rparr>
         \<lparr>blocks = [Some [Some ''ab'', None]], avail = 62, delete_calls = [], leaked = 0\<rparr> [''ab''] \<and>
   EmplaceBack emptied (Ctor (Some ''cd''))
     (\<lparr>m_data = \<lparr>m_buffer = Some 0, m_capacity = 2\<rparr>, m_size = 1\<rparr>,
      \<lparr>blocks = [Some [Some ''ab'', None]], avail = 62, delete_calls = [], leaked = 0\<rparr>)
     = Returns (Some 0, 1)
         (\<lparr>m_data = \<lparr>m_buffer = Some 0, m_capacity = 2\<rparr>, m_size = 2\<rparr>,
          \<lparr>blocks = [Some [Some ''ab'', Some ''cd'']], avail = 62, delete_calls = [], leaked = 0\<rparr>) \<and>
   (Some 0, 1) = (m_buffer (m_data \<lparr>m_data = \<lparr>m_buffer = Some 0, m_capacity = 2\<rparr>, m_size = 2\<rparr>),
                  m_size \<lparr>m_data = \<lparr>m_buffer = Some 0, m_capacity = 2\<rparr>, m_size = 2\<rparr> - 1) \<and>
   relocation_succeeds emptied [''ab'', ''cd''] \<and>
   allocation_succeeds emptied 4
     \<lparr>blocks = [Some [Some ''ab'', Some ''cd'']], avail = 62, delete_calls = [], leaked = 0\<rparr> \<and>
   (\<exists>v' h'. EmplaceBack emptied (MoveVal ''ef'')
        (\<lparr>m_data = \<lparr>m_buffer = Some 0, m_capacity = 2\<rparr>, m_size = 2\<rparr>,
         \<lparr>blocks = [Some [Some ''ab'', Some ''cd'']], avail = 62, delete_calls = [], leaked = 0\<rparr>)
        = Returns (m_buffer (m_data v'), m_size v' - 1) (v', h') \<and>
      holds v' h' [''ab'', ''cd'', ''ef''] \<and>
      read_at (m_buffer (m_data v'), m_size v' - 1) h' = Returns ''ef'' h')"
proof -
  let ?v1 = "\<lparr>m_data = \<lparr>m_buffer = Some 0, m_capacity = 2\<rparr>, m_size = 1\<rparr>"
  let ?h1 = "\<lparr>blocks = [Some [Some ''ab'', None]], avail = 62, delete_calls = [], leaked = 0\<rparr>"
  let ?v2 = "\<lparr>m_data = \<lparr>m_buffer = Some 0, m_capacity = 2\<rparr>, m_size = 2\<rparr>"
  let ?h2 = "\<lparr>blocks = [Some [Some ''ab'', Some ''cd'']], avail = 62, delete_calls = [], leaked = 0\<rparr>"
  have a: "holds ?v1 ?h1 [''ab'']" by (simp add: holds_def Capacity_def)
  have b: "EmplaceBack emptied (Ctor (Some ''cd'')) (?v1, ?h1) = Returns (Some 0, 1) (?v2, ?h2)"
    by code_simp
  have c: "holds ?v2 ?h2 [''ab'', ''cd'']" by (simp add: holds_def Capacity_def)
  have d: "initial_value emptied (MoveVal ''ef'') ?h2 = Returns ''ef'' ?h2" by (simp add: emptied_def)
  have e: "relocation_succeeds emptied [''ab'', ''cd'']"
    by (simp add: relocation_succeeds_def relocate_by_move_def is_nothrow_move_constructible_def emptied_def)
  have f: "allocation_succeeds emptied 4 ?h2" by (simp add: allocation_succeeds_def emptied_def)
  from EmplaceBack_returns_last_element[of emptied "Ctor (Some ''cd'')" ?v1 ?h1 "[''ab'']" "''cd''"] b
  have first: "(Some 0, 1) = (m_buffer (m_data ?v2), m_size ?v2 - 1)" by blast
  from EmplaceBack_returns_last_element[of emptied "MoveVal ''ef''" ?v2 ?h2 "[''ab'', ''cd'']" "''ef''"] c d e f
  have second: "\<exists>v' h'. EmplaceBack emptied (MoveVal ''ef'') (?v2, ?h2)
        = Returns (m_buffer (m_data v'), m_size v' - 1) (v', h') \<and>
      holds v' h' [''ab'', ''cd'', ''ef''] \<and>
      read_at (m_buffer (m_data v'), m_size v' - 1) h' = Returns ''ef'' h'"
    by simp
  from a b e f first second show ?thesis by blast
qed

text \<open>
  Claim C3. When a sequence of \<^verbatim>\<open>PushBack\<close> and \<^verbatim>\<open>PopBack\<close> calls has run (each call
  returned: no push threw and no pop met an empty vector), the size at the end is the
  size at the start plus the number of pushes minus the number of pops, and the
  capacities seen at the start and after each call never decrease.
\<close>

theorem push_pop_size_and_capacity:
  assumes "run T cs (v, h) = Returns caps (v', h')"
  shows "int (m_size v') = int (m_size v) + int (length (filter is_push cs))
                             - int (length (filter (\<lambda>c. \<not> is_push c) cs))
         \<and> length caps = length cs \<and> sorted (Capacity v # caps)"
proof -
  have "run T cs s = Returns caps s' \<Longrightarrow>
     m_size (fst s') + length (filter (\<lambda>c. \<not> is_push c) cs) = m_size (fst s) + length (filter is_push cs)
     \<and> length caps = length cs \<and> sorted (Capacity (fst s) # caps)" for s s'
  proof (induction cs arbitrary: s caps)
    case Nil
    then show ?case by simp
  next
    case (Cons c cs)
    from Cons.prems obtain u s1 caps1 where
      step: "apply_operation T c s = Returns u s1" and rest: "run T cs s1 = Returns caps1 s'"
      and caps: "caps = Capacity (fst s1) # caps1"
      by (auto simp: andThen_Returns_iff)
    note IH = Cons.IH[OF rest]
    show ?case
    proof (cases c)
      case (Push val)
      with step obtain r where "EmplaceBack T val s = Returns r s1"
        by (auto simp: PushBack_def andThen_Returns_iff)
      from EmplaceBack_Returns(1,2)[OF this]
      have "m_size (fst s1) = Suc (m_size (fst s))" "Capacity (fst s) \<le> Capacity (fst s1)"
        by (auto split: if_splits)
      with IH Push caps show ?thesis by auto
    next
      case Pop
      with step have "PopBack s = Returns u s1" by simp
      from PopBack_Returns[OF this]
      have "0 < m_size (fst s)" "m_size (fst s1) = m_size (fst s) - 1" "Capacity (fst s1) = Capacity (fst s)"
        by (simp_all add: Capacity_def)
      with IH Pop caps show ?thesis by auto
    qed
  qed
  from this[OF assms] show ?thesis by auto
qed

theorem push_pop_size_and_capacity_witness:
  "run plain [Push (CopyVal 1), Push (CopyVal 2), Pop, Push (CopyVal 3)] (Vector_default, fresh_heap)
     = Returns [1, 2, 2, 2]
         (\<lparr>m_data = \<lparr>m_buffer = Some 1, m_capacity = 2\<rparr>, m_size = 2\<rparr>,
          \<lparr>blocks = [None, Some [Some 1, Some 3]], avail = 62, delete_calls = [None, Some 0], leaked = 0\<rparr>) \<and>
   int (m_size \<lparr>m_data = \<lparr>m_buffer = Some 1, m_capacity = 2\<rparr>, m_size = 2\<rparr>)
     = int (m_size Vector_default) + 3 - 1 \<and>
   sorted (Capacity Vector_default # [1, 2, 2, 2])"
proof -
  have r: "run plain [Push (CopyVal 1), Push (CopyVal 2), Pop, Push (CopyVal 3)] (Vector_default, fresh_heap)
     = Returns [1, 2, 2, 2]
         (\<lparr>m_data = \<lparr>m_buffer = Some 1, m_capacity = 2\<rparr>, m_size = 2\<rparr>,
          \<lparr>blocks = [None, Some [Some 1, Some 3]], avail = 62, delete_calls = [None, Some 0], leaked = 0\<rparr>)"
    by code_simp
  from push_pop_size_and_capacity[OF r] r show ?thesis by simp
qed

section \<open>A copy that throws during reallocation\<close>

text \<open>
  Claim C2 at an input where the code does not keep it. A vector of the test type
  \<open>fragile\<close> is built through the interface: \<^verbatim>\<open>Reserve(2)\<close>, then \<^verbatim>\<open>EmplaceBack\<close> of 7 and
  of 1 into the spare capacity. It is full and holds 7, 1. Now \<^verbatim>\<open>Emplace(begin() + 1, 5)\<close>
  reallocates and relocates by copy: the new element is built at offset 1 of the new
  region, the copy of the prefix throws on 7, \<^verbatim>\<open>uninitialized_copy_n\<close> has nothing left
  to clean up, and the handler of \<^verbatim>\<open>Emplace\<close> then destroys two objects from offset 0
  of the new region, of which the first was never constructed: undefined behaviour,
  and no exception reaches the caller. On the same vector \<^verbatim>\<open>EmplaceBack\<close> and
  \<^verbatim>\<open>Reserve\<close> pass the exception on with the vector and its elements as before, the new
  region released and no object lost; so does \<^verbatim>\<open>Emplace\<close> at offset 0, where the copy
  that throws belongs to the suffix.
\<close>

theorem Emplace_prefix_copy_failure:
  "Reserve fragile 2 (Vector_default, fresh_heap)
     = Returns ()
         (\<lparr>m_data = \<lparr>m_buffer = Some 0, m_capacity = 2\<rparr>, m_size = 0\<rparr>,
          \<lparr>blocks = [Some [None, None]], avail = 62, delete_calls = [None], leaked = 0\<rparr>) \<and>
   EmplaceBack fragile (Ctor (Some 7))
     (\<lparr>m_data = \<lparr>m_buffer = Some 0, m_capacity = 2\<rparr>, m_size = 0\<rparr>,
      \<lparr>blocks = [Some [None, None]], avail = 62, delete_calls = [None], leaked = 0\<rparr>)
     = Returns (Some 0, 0)
         (\<lparr>m_data = \<lparr>m_buffer = Some 0, m_capacity = 2\<rparr>, m_size = 1\<rparr>,
          \<lparr>blocks = [Some [Some 7, None]], avail = 62, delete_calls = [None], leaked = 0\<rparr>) \<and>
   EmplaceBack fragile (Ctor (Some 1))
     (\<lparr>m_data = \<lparr>m_buffer = Some 0, m_capacity = 2\<rparr>, m_size = 1\<rparr>,
      \<lparr>blocks = [Some [Some 7, None]], avail = 62, delete_calls = [None], leaked = 0\<rparr>)
     = Returns (Some 0, 1)
         (\<lparr>m_data = \<lparr>m_buffer = Some 0, m_capacity = 2\<rparr>, m_size = 2\<rparr>,
          \<lparr>blocks = [Some [Some 7, Some 1]], avail = 62, delete_calls = [None], leaked = 0\<rparr>) \<and>
   holds \<lparr>m_data = \<lparr>m_buffer = Some 0, m_capacity = 2\<rparr>, m_size = 2\<rparr>
         \<lparr>blocks = [Some [Some 7, Some 1]], avail = 62, delete_calls = [None], leaked = 0\<rparr> [7, 1 :: nat] \<and>
   Emplace fragile (ptr_add (Vector_begin \<lparr>m_data = \<lparr>m_buffer = Some 0, m_capacity = 2\<rparr>, m_size = 2\<rparr>) 1)
     (CopyVal 5)
     (\<lparr>m_data = \<lparr>m_buffer = Some 0, m_capacity = 2\<rparr>, m_size = 2\<rparr>,
      \<lparr>blocks = [Some [Some 7, Some 1]], avail = 62, delete_calls = [None], leaked = 0\<rparr>)
     = Fault \<and>
   uninitialized_copy_n fragile (Some 0, 0) 1 (Some 1, 0)
     \<lparr>blocks = [Some [Some 7, Some 1], Some [None, Some 5, None, None]], avail = 58,
      delete_calls = [None], leaked = 0\<rparr>
     = Throws element_exception
         \<lparr>blocks = [Some [Some 7, Some 1], Some [None, Some 5, None, None]], avail = 58,
          delete_calls = [None], leaked = 0\<rparr> \<and>
   destroy_n (Some 1, 0) (1 + 1)
     (\<lparr>blocks = [Some [Some 7, Some 1], Some [None, Some 5, None, None]], avail = 58,
       delete_calls = [None], leaked = 0\<rparr> :: nat heap)
     = Fault \<and>
   EmplaceBack fragile (CopyVal 5)
     (\<lparr>m_data = \<lparr>m_buffer = Some 0, m_capacity = 2\<rparr>, m_size = 2\<rparr>,
      \<lparr>blocks = [Some [Some 7, Some 1]], avail = 62, delete_calls = [None], leaked = 0\<rparr>)
     = Throws element_exception
         (\<lparr>m_data = \<lparr>m_buffer = Some 0, m_capacity = 2\<rparr>, m_size = 2\<rparr>,
          \<lparr>blocks = [Some [Some 7, Some 1], None], avail = 62, delete_calls = [None, Some 1], leaked = 0\<rparr>) \<and>
   Reserve fragile 3
     (\<lparr>m_data = \<lparr>m_buffer = Some 0, m_capacity = 2\<rparr>, m_size = 2\<rparr>,
      \<lparr>blocks = [Some [Some 7, Some 1]], avail = 62, delete_calls = [None], leaked = 0\<rparr>)
     = Throws element_exception
         (\<lparr>m_data = \<lparr>m_buffer = Some 0, m_capacity = 2\<rparr>, m_size = 2\<rparr>,
          \<lparr>blocks = [Some [Some 7, Some 1], None], avail = 62, delete_calls = [None, Some 1], leaked = 0\<rparr>) \<and>
   Emplace fragile (ptr_add (Vector_begin \<lparr>m_data = \<lparr>m_buffer = Some 0, m_capacity = 2\<rparr>, m_size = 2\<rparr>) 0)
     (CopyVal 5)
     (\<lparr>m_data = \<lparr>m_buffer = Some 0, m_capacity = 2\<rparr>, m_size = 2\<rparr>,
      \<lparr>blocks = [Some [Some 7, Some 1]], avail = 62, delete_calls = [None], leaked = 0\<rparr>)
     = Throws element_exception
         (\<lparr>m_data = \<lparr>m_buffer = Some 0, m_capacity = 2\<rparr>, m_size = 2\<rparr>,
          \<lparr>blocks = [Some [Some 7, Some 1], None], avail = 62, delete_calls = [None, Some 1], leaked = 0\<rparr>)"
  by (intro conjI; code_simp)

section \<open>Growth\<close>

text \<open>
  Claim C5. On a vector whose size equals its capacity, a call of \<^verbatim>\<open>EmplaceBack\<close> (and
  so of \<^verbatim>\<open>PushBack\<close>) or of \<^verbatim>\<open>Emplace\<close> that returns leaves the vector in the region
  that the call has allocated, and the capacity of that region is 1 when the capacity
  was 0 and twice the size otherwise. Such calls do return: when the vector holds \<open>xs\<close>,
  the constructor call yields a value, the new region can be allocated and
  relocation does not throw. Pushing 1, 2, 3, 4, 5 into a default-constructed vector
  of a type like \<^verbatim>\<open>int\<close> shows the capacities 1, 2, 4, 4, 8 and ends with size 5 and
  the contents 1, 2, 3, 4, 5.
\<close>

theorem growth_policy:
  "(m_size v = Capacity v \<longrightarrow>
      (\<forall>r v' h'. EmplaceBack T a (v, h) = Returns r (v', h') \<longrightarrow>
         Capacity v' = (if Capacity v = 0 then 1 else m_size v * 2) \<and>
         m_buffer (m_data v') = Some (length (blocks h))) \<and>
      (\<forall>r v' h'. Emplace T pos a (v, h) = Returns r (v', h') \<longrightarrow>
         Capacity v' = (if Capacity v = 0 then 1 else m_size v * 2) \<and>
         m_buffer (m_data v') = Some (length (blocks h)))) \<and>
   (holds v h xs \<and> Capacity v = length xs \<and> p \<le> length xs \<and> initial_value T a h = Returns x h \<and>
    allocation_succeeds T (if xs = [] then 1 else length xs * 2) h \<and> relocation_succeeds T xs \<longrightarrow>
      (\<exists>r v' h'. EmplaceBack T a (v, h) = Returns r (v', h') \<and>
         Capacity v' = (if xs = [] then 1 else length xs * 2)) \<and>
      (\<exists>r v' h'. Emplace T (ptr_add (Vector_begin v) p) a (v, h) = Returns r (v', h') \<and>
         Capacity v' = (if xs = [] then 1 else length xs * 2))) \<and>
   (\<exists>v' h'. run plain [Push (CopyVal 1), Push (CopyVal 2), Push (CopyVal 3), Push (CopyVal 4), Push (CopyVal 5)]
               (Vector_default, fresh_heap) = Returns [1, 2, 4, 4, 8] (v', h') \<and>
            Size v' = 5 \<and> holds v' h' [1, 2, 3, 4, 5])"
proof (intro conjI impI allI)
  fix r v' h'
  assume full: "m_size v = Capacity v" and eb: "EmplaceBack T a (v, h) = Returns r (v', h')"
  from EmplaceBack_Returns(2)[OF eb] full
  show "Capacity v' = (if Capacity v = 0 then 1 else m_size v * 2)" by simp
  from EmplaceBack_Returns_buffer[OF eb] full
  show "m_buffer (m_data v') = Some (length (blocks h))" by simp
next
  fix r v' h'
  assume full: "m_size v = Capacity v" and e: "Emplace T pos a (v, h) = Returns r (v', h')"
  from Emplace_Returns(2)[OF e] full
  show "Capacity v' = (if Capacity v = 0 then 1 else m_size v * 2)" by simp
  from Emplace_Returns(4)[OF e] full
  show "m_buffer (m_data v') = Some (length (blocks h))" by simp
next
  assume A: "holds v h xs \<and> Capacity v = length xs \<and> p \<le> length xs \<and> initial_value T a h = Returns x h \<and>
    allocation_succeeds T (if xs = [] then 1 else length xs * 2) h \<and> relocation_succeeds T xs"
  then have hv: "holds v h xs" and iv: "initial_value T a h = Returns x h" and cap: "Capacity v = length xs"
    and c: "Capacity v = length xs \<Longrightarrow>
              allocation_succeeds T (if xs = [] then 1 else length xs * 2) h \<and> relocation_succeeds T xs"
    by simp_all
  from hv have sz: "m_size v = length xs" by (simp add: holds_def)
  from EmplaceBack_holds[OF hv iv c]
  obtain v' h' where eb: "EmplaceBack T a (v, h) = Returns (m_buffer (m_data v'), length xs) (v', h')"
    by blast
  from EmplaceBack_Returns(2)[OF eb] sz cap
  have "Capacity v' = (if xs = [] then 1 else length xs * 2)" by simp
  with eb show "\<exists>r v' h'. EmplaceBack T a (v, h) = Returns r (v', h') \<and>
         Capacity v' = (if xs = [] then 1 else length xs * 2)"
    by blast
next
  assume A: "holds v h xs \<and> Capacity v = length xs \<and> p \<le> length xs \<and> initial_value T a h = Returns x h \<and>
    allocation_succeeds T (if xs = [] then 1 else length xs * 2) h \<and> relocation_succeeds T xs"
  then have hv: "holds v h xs" and iv: "initial_value T a h = Returns x h" and cap: "Capacity v = length xs"
    and p: "p \<le> length xs"
    and c: "if Capacity v = length xs
            then allocation_succeeds T (if xs = [] then 1 else length xs * 2) h \<and> relocation_succeeds T xs
            else in_place_succeeds T xs p x"
    by simp_all
  from hv have sz: "m_size v = length xs" by (simp add: holds_def)
  from Emplace_holds[OF hv p iv c]
  obtain v' h' where e: "Emplace T (m_buffer (m_data v), p) a (v, h) = Returns (m_buffer (m_data v'), p) (v', h')"
    by blast
  from Emplace_Returns(2)[OF e] sz cap
  have "Capacity v' = (if xs = [] then 1 else length xs * 2)" by simp
  with e show "\<exists>r v' h'. Emplace T (ptr_add (Vector_begin v) p) a (v, h) = Returns r (v', h') \<and>
         Capacity v' = (if xs = [] then 1 else length xs * 2)"
    by (auto simp: Vector_begin_def GetAddress_def)
next
  let ?v = "\<lparr>m_data = \<lparr>m_buffer = Some 3, m_capacity = 8\<rparr>, m_size = 5\<rparr>"
  let ?h = "\<lparr>blocks = [None, None, None, Some [Some 1, Some 2, Some 3, Some 4, Some 5, None, None, None]],
            avail = 56, delete_calls = [None, Some 0, Some 1, Some 2], leaked = 0\<rparr> :: nat heap"
  have "run plain [Push (CopyVal 1), Push (CopyVal 2), Push (CopyVal 3), Push (CopyVal 4), Push (CopyVal 5)]
          (Vector_default, fresh_heap) = Returns [1, 2, 4, 4, 8] (?v, ?h)"
    by code_simp
  moreover have "Size ?v = 5" by (simp add: Size_def)
  moreover have "holds ?v ?h [1, 2, 3, 4, 5]" by code_simp
  ultimately show "\<exists>v' h'. run plain [Push (CopyVal 1), Push (CopyVal 2), Push (CopyVal 3), Push (CopyVal 4), Push (CopyVal 5)]
               (Vector_default, fresh_heap) = Returns [1, 2, 4, 4, 8] (v', h') \<and>
            Size v' = 5 \<and> holds v' h' [1, 2, 3, 4, 5]"
    by blast
qed

theorem growth_policy_witness:
  "m_size \<lparr>m_data = \<lparr>m_buffer = Some 0, m_capacity = 2\<rparr>, m_size = 2\<rparr>
     = Capacity \<lparr>m_data = \<lparr>m_buffer = Some 0, m_capacity = 2\<rparr>, m_size = 2\<rparr> \<and>
   holds \<lparr>m_data = \<lparr>m_buffer = Some 0, m_capacity = 2\<rparr>, m_size = 2\<rparr>
         \<lparr>blocks = [Some [Some 1, Some 2]], avail = 62, delete_calls = [], leaked = 0\<rparr> [1, 2 :: nat] \<and>
   relocation_succeeds plain [1, 2] \<and>
   allocation_succeeds plain 4
     \<lparr>blocks = [Some [Some 1, Some 2]], avail = 62, delete_calls = [], leaked = 0\<rparr> \<and>
   EmplaceBack plain (CopyVal 3)
     (\<lparr>m_data = \<lparr>m_buffer = Some 0, m_capacity = 2\<rparr>, m_size = 2\<rparr>,
      \<lparr>blocks = [Some [Some 1, Some 2]], avail = 62, delete_calls = [], leaked = 0\<rparr>)
     = Returns (Some 1, 2)
         (\<lparr>m_data = \<lparr>m_buffer = Some 1, m_capacity = 4\<rparr>, m_size = 3\<rparr>,
          \<lparr>blocks = [None, Some [Some 1, Some 2, Some 3, None]], avail = 60, delete_calls = [Some 0], leaked = 0\<rparr>) \<and>
   Capacity \<lparr>m_data = \<lparr>m_buffer = Some 1, m_capacity = 4\<rparr>, m_size = 3\<rparr> = 2 * 2 \<and>
   (\<exists>r v' h'. Emplace plain (ptr_add (Vector_begin \<lparr>m_data = \<lparr>m_buffer = Some 0, m_capacity = 2\<rparr>, m_size = 2\<rparr>) 1)
        (CopyVal 3)
        (\<lparr>m_data = \<lparr>m_buffer = Some 0, m_capacity = 2\<rparr>, m_size = 2\<rparr>,
         \<lparr>blocks = [Some [Some 1, Some 2]], avail = 62, delete_calls = [], leaked = 0\<rparr>)
        = Returns r (v', h') \<and> Capacity v' = 4)"
proof -
  let ?v = "\<lparr>m_data = \<lparr>m_buffer = Some 0, m_capacity = 2\<rparr>, m_size = 2\<rparr>"
  let ?h = "\<lparr>blocks = [Some [Some 1, Some 2]], avail = 62, delete_calls = [], leaked = 0\<rparr> :: nat heap"
  let ?v' = "\<lparr>m_data = \<lparr>m_buffer = Some 1, m_capacity = 4\<rparr>, m_size = 3\<rparr>"
  let ?h' = "\<lparr>blocks = [None, Some [Some 1, Some 2, Some 3, None]], avail = 60, delete_calls = [Some 0], leaked = 0\<rparr> :: nat heap"
  have a: "m_size ?v = Capacity ?v" by (simp add: Capacity_def)
  have b: "holds ?v ?h [1, 2]" by (simp add: holds_def Capacity_def)
  have c: "relocation_succeeds plain [1, 2]"
    by (simp add: relocation_succeeds_def relocate_by_move_def is_nothrow_move_constructible_def plain_def)
  have d: "EmplaceBack plain (CopyVal 3) (?v, ?h) = Returns (Some 1, 2) (?v', ?h')"
    by code_simp
  have e: "initial_value plain (CopyVal 3) ?h = Returns 3 ?h"
    by (simp add: copy_value_def plain_def)
  have f: "allocation_succeeds plain 4 ?h" by (simp add: allocation_succeeds_def plain_def)
  note G = growth_policy[of ?v plain "CopyVal 3" ?h "(Some 0, 1)" "[1, 2]" 1 3]
  from G a d have first: "Capacity ?v' = 2 * 2" by (simp add: Capacity_def)
  from G b c e f have "\<exists>r v' h'. Emplace plain (ptr_add (Vector_begin ?v) 1) (CopyVal 3) (?v, ?h) = Returns r (v', h') \<and>
         Capacity v' = (if [1, 2 :: nat] = [] then 1 else length [1, 2 :: nat] * 2)"
    by (simp add: Capacity_def)
  then have second: "\<exists>r v' h'. Emplace plain (ptr_add (Vector_begin ?v) 1) (CopyVal 3) (?v, ?h) = Returns r (v', h') \<and>
         Capacity v' = 4"
    by simp
  from a b c d f first second show ?thesis by blast
qed

section \<open>Insert\<close>

text \<open>
  Claim C6. Let the vector hold \<open>xs\<close>, let \<open>p\<close> be an offset in \<^verbatim>\<open>[0, size]\<close>, and let
  the constructor call on the inserted value yield \<open>x\<close>. When the call completes (a full
  vector can allocate the new region and relocates without an exception; a vector
  with spare capacity shifts its tail without an exception), \<^verbatim>\<open>Insert(begin() + p, value)\<close>
  returns the iterator to offset \<open>p\<close> of the vector, and the vector then holds the first
  \<open>p\<close> elements of \<open>xs\<close>, then \<open>x\<close>, then the other elements of \<open>xs\<close>; its size is one
  more. This covers the reallocating path and the two paths into spare capacity.
\<close>

theorem Insert_places_element:
  assumes "holds v h xs" and "p \<le> length xs" and "initial_value T val h = Returns x h"
    and "if Capacity v = length xs
         then allocation_succeeds T (if xs = [] then 1 else length xs * 2) h \<and> relocation_succeeds T xs
         else in_place_succeeds T xs p x"
  shows "\<exists>v' h'. Insert T (ptr_add (Vector_begin v) p) val (v, h)
                    = Returns (ptr_add (Vector_begin v') p) (v', h') \<and>
           holds v' h' (take p xs @ [x] @ drop p xs) \<and> m_size v' = Suc (length xs)"
proof -
  from Emplace_holds[OF assms]
  obtain v' h' where e: "Emplace T (m_buffer (m_data v), p) val (v, h) = Returns (m_buffer (m_data v'), p) (v', h')"
    and hv: "holds v' h' (take p xs @ [x] @ drop p xs)"
    by blast
  from hv have "m_size v' = Suc (length xs)" using assms(2) by (simp add: holds_def)
  with e hv show ?thesis
    by (auto simp: Insert_def Vector_begin_def GetAddress_def)
qed

theorem Insert_places_element_witness:
  "holds \<lparr>m_data = \<lparr>m_buffer = Some 0, m_capacity = 4\<rparr>, m_size = 3\<rparr>
         \<lparr>blocks = [Some [Some 1, Some 2, Some 3, None]], avail = 60, delete_calls = [], leaked = 0\<rparr>
         [1, 2, 3 :: nat] \<and>
   in_place_succeeds plain [1, 2, 3] 1 99 \<and>
   (\<exists>v' h'. Insert plain (ptr_add (Vector_begin \<lparr>m_data = \<lparr>m_buffer = Some 0, m_capacity = 4\<rparr>, m_size = 3\<rparr>) 1)
        (CopyVal 99)
        (\<lparr>m_data = \<lparr>m_buffer = Some 0, m_capacity = 4\<rparr>, m_size = 3\<rparr>,
         \<lparr>blocks = [Some [Some 1, Some 2, Some 3, None]], avail = 60, delete_calls = [], leaked = 0\<rparr>)
        = Returns (ptr_add (Vector_begin v') 1) (v', h') \<and>
      holds v' h' [1, 99, 2, 3] \<and> m_size v' = 4) \<and>
   holds \<lparr>m_data = \<lparr>m_buffer = Some 0, m_capacity = 2\<rparr>, m_size = 2\<rparr>
         \<lparr>blocks = [Some [Some ''ab'', Some ''cd'']], avail = 62, delete_calls = [], leaked = 0\<rparr>
         [''ab'', ''cd''] \<and>
   relocation_succeeds emptied [''ab'', ''cd''] \<and>
   allocation_succeeds emptied 4
     \<lparr>blocks = [Some [Some ''ab'', Some ''cd'']], avail = 62, delete_calls = [], leaked = 0\<rparr> \<and>
   (\<exists>v' h'. Insert emptied (ptr_add (Vector_begin \<lparr>m_data = \<lparr>m_buffer = Some 0, m_capacity = 2\<rparr>, m_size = 2\<rparr>) 1)
        (CopyOf (Some 0, 1))
        (\<lparr>m_data = \<lparr>m_buffer = Some 0, m_capacity = 2\<rparr>, m_size = 2\<rparr>,
         \<lparr>blocks = [Some [Some ''ab'', Some ''cd'']], avail = 62, delete_calls = [], leaked = 0\<rparr>)
        = Returns (ptr_add (Vector_begin v') 1) (v', h') \<and>
      holds v' h' [''ab'', ''cd'', ''cd''] \<and> m_size v' = 3)"
proof -
  let ?v = "\<lparr>m_data = \<lparr>m_buffer = Some 0, m_capacity = 4\<rparr>, m_size = 3\<rparr>"
  let ?h = "\<lparr>blocks = [Some [Some 1, Some 2, Some 3, None]], avail = 60, delete_calls = [], leaked = 0\<rparr> :: nat heap"
  let ?w = "\<lparr>m_data = \<lparr>m_buffer = Some 0, m_capacity = 2\<rparr>, m_size = 2\<rparr>"
  let ?g = "\<lparr>blocks = [Some [Some ''ab'', Some ''cd'']], avail = 62, delete_calls = [], leaked = 0\<rparr>"
  have a: "holds ?v ?h [1, 2, 3]" by (simp add: holds_def Capacity_def)
  have b: "in_place_succeeds plain [1, 2, 3] 1 99"
    by (simp add: in_place_succeeds_def plain_def)
  have c: "initial_value plain (CopyVal 99) ?h = Returns 99 ?h"
    by (simp add: copy_value_def plain_def)
  have b': "if Capacity ?v = length [1, 2, 3 :: nat]
            then allocation_succeeds plain (if [1, 2, 3 :: nat] = [] then 1 else length [1, 2, 3 :: nat] * 2) ?h
                 \<and> relocation_succeeds plain [1, 2, 3]
            else in_place_succeeds plain [1, 2, 3] 1 99"
    using b by (simp add: Capacity_def)
  have p1: "1 \<le> length [1, 2, 3 :: nat]" by simp
  from Insert_places_element[OF a p1 c b']
  obtain v' h' where
    "Insert plain (ptr_add (Vector_begin ?v) 1) (CopyVal 99) (?v, ?h) = Returns (ptr_add (Vector_begin v') 1) (v', h')"
    "holds v' h' (take 1 [1, 2, 3] @ [99] @ drop 1 [1, 2, 3])" "m_size v' = Suc (length [1, 2, 3 :: nat])"
    by blast
  then have first: "\<exists>v' h'. Insert plain (ptr_add (Vector_begin ?v) 1) (CopyVal 99) (?v, ?h)
        = Returns (ptr_add (Vector_begin v') 1) (v', h') \<and>
      holds v' h' [1, 99, 2, 3] \<and> m_size v' = 4"
    by (intro exI[of _ v'] exI[of _ h']) simp
  have d: "holds ?w ?g [''ab'', ''cd'']" by (simp add: holds_def Capacity_def)
  have e: "relocation_succeeds emptied [''ab'', ''cd'']"
    by (simp add: relocation_succeeds_def relocate_by_move_def is_nothrow_move_constructible_def emptied_def)
  have f: "initial_value emptied (CopyOf (Some 0, 1)) ?g = Returns ''cd'' ?g"
    by (simp add: read_at_def slot_def copy_value_def emptied_def)
  have g: "allocation_succeeds emptied 4 ?g" by (simp add: allocation_succeeds_def emptied_def)
  have e': "if Capacity ?w = length [''ab'', ''cd'']
            then allocation_succeeds emptied (if [''ab'', ''cd''] = [] then 1 else length [''ab'', ''cd''] * 2) ?g
                 \<and> relocation_succeeds emptied [''ab'', ''cd'']
            else in_place_succeeds emptied [''ab'', ''cd''] 1 ''cd''"
    using e g by (simp add: Capacity_def)
  have p2: "1 \<le> length [''ab'', ''cd'']" by simp
  from Insert_places_element[OF d p2 f e']
  obtain w' g' where
    "Insert emptied (ptr_add (Vector_begin ?w) 1) (CopyOf (Some 0, 1)) (?w, ?g) = Returns (ptr_add (Vector_begin w') 1) (w', g')"
    "holds w' g' (take 1 [''ab'', ''cd''] @ [''cd''] @ drop 1 [''ab'', ''cd''])" "m_size w' = Suc (length [''ab'', ''cd''])"
    by blast
  then have second: "\<exists>v' h'. Insert emptied (ptr_add (Vector_begin ?w) 1) (CopyOf (Some 0, 1)) (?w, ?g)
        = Returns (ptr_add (Vector_begin v') 1) (v', h') \<and>
      holds v' h' [''ab'', ''cd'', ''cd''] \<and> m_size v' = 3"
    by (intro exI[of _ w'] exI[of _ g']) simp
  from a b first d e g second show ?thesis by blast
qed

section \<open>Reserving capacity\<close>



section \<open>Erase\<close>

text \<open>
  Claim C7. Let the vector hold \<open>xs\<close> and let \<open>p\<close> be the offset of one of its elements.
  When no move assignment of an element behind \<open>p\<close> throws, \<^verbatim>\<open>Erase(begin() + p)\<close>
  returns; afterwards the vector holds \<open>xs\<close> without its element at \<open>p\<close> (the first
  \<open>p\<close> elements as before, then those that came after \<open>p\<close>), its size is one less, and
  the iterator returned points at offset \<open>p\<close> of the vector, which is \<^verbatim>\<open>end()\<close> when the
  last element was erased.
\<close>

theorem Erase_removes_element:
  assumes "holds v h xs" and "p < length xs"
    and "\<forall>k. p < k \<and> k < length xs \<longrightarrow> \<not> throws (move_assign T) (xs ! k)"
  shows "\<exists>v' h'. Erase T (ptr_add (Vector_begin v) p) (v, h)
                    = Returns (ptr_add (Vector_begin v') p) (v', h') \<and>
           holds v' h' (take p xs @ drop (Suc p) xs) \<and> m_size v' = length xs - 1 \<and>
           (p = length xs - 1 \<longrightarrow> ptr_add (Vector_begin v') p = Vector_end v')"
proof -
  from assms(1,2) have "0 < Capacity v" by (simp add: holds_def)
  then obtain a where a: "m_buffer (m_data v) = Some a"
    using holds_buffer[OF assms(1)] by auto
  obtain k where k: "length xs = Suc k" using assms(2) by (cases xs) auto
  let ?v = "v\<lparr>m_size := length xs - 1\<rparr>"
  let ?h = "set_block a (map Some (take p xs @ drop (Suc p) xs) @ replicate (Capacity v - (length xs - 1)) None) h"
  have e: "Erase T (Some a, p) (v, h) = Returns (Some a, p) (?v, ?h)"
    using assms(1,2) a assms(3) by (rule Erase_block)
  have "holds ?v ?h (take p xs @ drop (Suc p) xs)"
    using assms(1,2) a k by (auto simp: holds_Some Capacity_def at_block_def set_block_def)
  with e a show ?thesis
    by (auto simp: Vector_begin_def Vector_end_def GetAddress_def)
qed

theorem Erase_removes_element_witness:
  "holds \<lparr>m_data = \<lparr>m_buffer = Some 0, m_capacity = 4\<rparr>, m_size = 3\<rparr>
         \<lparr>blocks = [Some [Some 1, Some 2, Some 3, None]], avail = 60, delete_calls = [], leaked = 0\<rparr>
         [1, 2, 3 :: nat] \<and>
   (\<exists>v' h'. Erase fragile (ptr_add (Vector_begin \<lparr>m_data = \<lparr>m_buffer = Some 0, m_capacity = 4\<rparr>, m_size = 3\<rparr>) 1)
        (\<lparr>m_data = \<lparr>m_buffer = Some 0, m_capacity = 4\<rparr>, m_size = 3\<rparr>,
         \<lparr>blocks = [Some [Some 1, Some 2, Some 3, None]], avail = 60, delete_calls = [], leaked = 0\<rparr>)
        = Returns (ptr_add (Vector_begin v') 1) (v', h') \<and>
      holds v' h' [1, 3] \<and> m_size v' = 2)"
proof -
  let ?v = "\<lparr>m_data = \<lparr>m_buffer = Some 0, m_capacity = 4\<rparr>, m_size = 3\<rparr>"
  let ?h = "\<lparr>blocks = [Some [Some 1, Some 2, Some 3, None]], avail = 60, delete_calls = [], leaked = 0\<rparr> :: nat heap"
  have a: "holds ?v ?h [1, 2, 3]" by (simp add: holds_def Capacity_def)
  have b: "\<forall>k. 1 < k \<and> k < length [1, 2, 3 :: nat] \<longrightarrow> \<not> throws (move_assign fragile) ([1, 2, 3] ! k)"
  proof (intro allI impI)
    fix k :: nat assume "1 < k \<and> k < length [1, 2, 3 :: nat]"
    then have "k = 2" by simp
    then show "\<not> throws (move_assign fragile) ([1, 2, 3] ! k)" by (simp add: fragile_def)
  qed
  from Erase_removes_element[of ?v ?h "[1, 2, 3]" 1 fragile, OF a _ b]
  show ?thesis using a by (simp add: numeral_2_eq_2)
qed

section \<open>Operations that do not throw\<close>

text \<open>
  Claim C8, as the code has it. \<^verbatim>\<open>PopBack\<close> on a vector that holds at least one element
  returns (and the vector then holds the elements but the last); \<^verbatim>\<open>Swap\<close> of two
  vectors returns, with the two objects exchanged and the heap untouched; \<^verbatim>\<open>Erase\<close> at
  the offset of an element returns when the element type is nothrow move assignable,
  which is the condition of its \<^verbatim>\<open>noexcept\<close> specification. For any other element
  type, \<^verbatim>\<open>Erase\<close> lets the exception of a move assignment through: when the move
  assignment throws on one of the elements behind the erased one, the call leaves by
  that exception, with the size and the region of the vector as they were.
\<close>

theorem nonthrowing_operations:
  "(holds v h xs \<and> xs \<noteq> [] \<longrightarrow>
      (\<exists>v' h'. PopBack (v, h) = Returns () (v', h') \<and> holds v' h' (butlast xs))) \<and>
   Swap v w h = Returns () ((w, v), h) \<and>
   (holds v h xs \<and> p < length xs \<and> is_nothrow_move_assignable T \<longrightarrow>
      (\<exists>r v' h'. Erase T (ptr_add (Vector_begin v) p) (v, h) = Returns r (v', h'))) \<and>
   (holds v h xs \<and> p < k \<and> k < length xs \<and> throws (move_assign T) (xs ! k) \<longrightarrow>
      (\<exists>h'. Erase T (ptr_add (Vector_begin v) p) (v, h) = Throws element_exception (v, h')))"
proof (intro conjI impI)
  assume "holds v h xs \<and> xs \<noteq> []"
  then show "\<exists>v' h'. PopBack (v, h) = Returns () (v', h') \<and> holds v' h' (butlast xs)"
    using PopBack_holds[of v h xs] by blast
next
  show "Swap v w h = Returns () ((w, v), h)"
    by (simp add: Swap_def RawMemory_Swap_def)
next
  assume A: "holds v h xs \<and> p < length xs \<and> is_nothrow_move_assignable T"
  then have hv: "holds v h xs" and p: "p < length xs" by simp_all
  from A have nt: "\<forall>k. p < k \<and> k < length xs \<longrightarrow> \<not> throws (move_assign T) (xs ! k)"
    by (cases "move_assign T") (simp_all add: is_nothrow_move_assignable_def)
  from hv p have "0 < Capacity v" by (simp add: holds_def)
  then obtain a where a: "m_buffer (m_data v) = Some a"
    using holds_buffer[OF hv] by auto
  from Erase_block[OF hv p a nt] a
  show "\<exists>r v' h'. Erase T (ptr_add (Vector_begin v) p) (v, h) = Returns r (v', h')"
    by (simp add: Vector_begin_def GetAddress_def)
next
  assume A: "holds v h xs \<and> p < k \<and> k < length xs \<and> throws (move_assign T) (xs ! k)"
  then have hv: "holds v h xs" and pk: "p < k" and k: "k < length xs"
    and th: "throws (move_assign T) (xs ! k)"
    by simp_all
  from pk k have p: "p < length xs" by simp
  with hv have "0 < Capacity v" by (simp add: holds_def)
  then obtain a where a: "m_buffer (m_data v) = Some a"
    using holds_buffer[OF hv] by auto
  from Erase_throws[OF hv p a pk k th] a
  show "\<exists>h'. Erase T (ptr_add (Vector_begin v) p) (v, h) = Throws element_exception (v, h')"
    by (simp add: Vector_begin_def GetAddress_def)
qed

theorem nonthrowing_operations_witness:
  "holds \<lparr>m_data = \<lparr>m_buffer = Some 0, m_capacity = 2\<rparr>, m_size = 2\<rparr>
         \<lparr>blocks = [Some [Some ''ab'', Some ''cd'']], avail = 62, delete_calls = [], leaked = 0\<rparr>
         [''ab'', ''cd''] \<and>
   is_nothrow_move_assignable emptied \<and>
   (\<exists>v' h'. PopBack
        (\<lparr>m_data = \<lparr>m_buffer = Some 0, m_capacity = 2\<rparr>, m_size = 2\<rparr>,
         \<lparr>blocks = [Some [Some ''ab'', Some ''cd'']], avail = 62, delete_calls = [], leaked = 0\<rparr>)
        = Returns () (v', h') \<and> holds v' h' [''ab'']) \<and>
   (\<exists>r v' h'. Erase emptied (ptr_add (Vector_begin \<lparr>m_data = \<lparr>m_buffer = Some 0, m_capacity = 2\<rparr>, m_size = 2\<rparr>) 0)
        (\<lparr>m_data = \<lparr>m_buffer = Some 0, m_capacity = 2\<rparr>, m_size = 2\<rparr>,
         \<lparr>blocks = [Some [Some ''ab'', Some ''cd'']], avail = 62, delete_calls = [], leaked = 0\<rparr>)
        = Returns r (v', h')) \<and>
   holds \<lparr>m_data = \<lparr>m_buffer = Some 0, m_capacity = 4\<rparr>, m_size = 3\<rparr>
         \<lparr>blocks = [Some [Some 1, Some 2, Some 7, None]], avail = 60, delete_calls = [], leaked = 0\<rparr>
         [1, 2, 7 :: nat] \<and>
   throws (move_assign fragile) ([1, 2, 7] ! 2) \<and>
   (\<exists>h'. Erase fragile (ptr_add (Vector_begin \<lparr>m_data = \<lparr>m_buffer = Some 0, m_capacity = 4\<rparr>, m_size = 3\<rparr>) 0)
        (\<lparr>m_data = \<lparr>m_buffer = Some 0, m_capacity = 4\<rparr>, m_size = 3\<rparr>,
         \<lparr>blocks = [Some [Some 1, Some 2, Some 7, None]], avail = 60, delete_calls = [], leaked = 0\<rparr>)
        = Throws element_exception
            (\<lparr>m_data = \<lparr>m_buffer = Some 0, m_capacity = 4\<rparr>, m_size = 3\<rparr>, h'))"
proof -
  let ?v = "\<lparr>m_data = \<lparr>m_buffer = Some 0, m_capacity = 2\<rparr>, m_size = 2\<rparr>"
  let ?h = "\<lparr>blocks = [Some [Some ''ab'', Some ''cd'']], avail = 62, delete_calls = [], leaked = 0\<rparr>"
  let ?u = "\<lparr>m_data = \<lparr>m_buffer = Some 0, m_capacity = 4\<rparr>, m_size = 3\<rparr>"
  let ?g = "\<lparr>blocks = [Some [Some 1, Some 2, Some 7, None]], avail = 60, delete_calls = [], leaked = 0\<rparr> :: nat heap"
  have a: "holds ?v ?h [''ab'', ''cd'']" by (simp add: holds_def Capacity_def)
  have b: "is_nothrow_move_assignable emptied"
    by (simp add: is_nothrow_move_assignable_def emptied_def)
  from nonthrowing_operations[of ?v ?h "[''ab'', ''cd'']" ?v 0 emptied 1] a b
  have first: "(\<exists>v' h'. PopBack (?v, ?h) = Returns () (v', h') \<and> holds v' h' [''ab'']) \<and>
    (\<exists>r v' h'. Erase emptied (ptr_add (Vector_begin ?v) 0) (?v, ?h) = Returns r (v', h'))"
    by simp
  have c: "holds ?u ?g [1, 2, 7]" by (simp add: holds_def Capacity_def)
  have d: "throws (move_assign fragile) ([1, 2, 7] ! 2)" by (simp add: fragile_def)
  from nonthrowing_operations[of ?u ?g "[1, 2, 7]" ?u 0 fragile 2] c d
  have second: "\<exists>h'. Erase fragile (ptr_add (Vector_begin ?u) 0) (?u, ?g) = Throws element_exception (?u, h')"
    by simp
  from a b first c d second show ?thesis by blast
qed

text \<open>
  Claim C8, as it is stated, fails for \<^verbatim>\<open>Erase\<close> on an element type whose move
  assignment may throw: the vector holds 1 and 7, the first element is erased, the
  assignment of 7 to the first slot throws and the exception leaves \<^verbatim>\<open>Erase\<close>.
\<close>

theorem Erase_throws_counterexample:
  "holds \<lparr>m_data = \<lparr>m_buffer = Some 0, m_capacity = 2\<rparr>, m_size = 2\<rparr>
         \<lparr>blocks = [Some [Some 1, Some 7]], avail = 62, delete_calls = [], leaked = 0\<rparr>
         [1, 7 :: nat] \<and>
   Erase fragile (ptr_add (Vector_begin \<lparr>m_data = \<lparr>m_buffer = Some 0, m_capacity = 2\<rparr>, m_size = 2\<rparr>) 0)
     (\<lparr>m_data = \<lparr>m_buffer = Some 0, m_capacity = 2\<rparr>, m_size = 2\<rparr>,
      \<lparr>blocks = [Some [Some 1, Some 7]], avail = 62, delete_calls = [], leaked = 0\<rparr>)
     = Throws element_exception
         (\<lparr>m_data = \<lparr>m_buffer = Some 0, m_capacity = 2\<rparr>, m_size = 2\<rparr>,
          \<lparr>blocks = [Some [Some 1, Some 7]], avail = 62, delete_calls = [], leaked = 0\<rparr>)"
proof -
  let ?v = "\<lparr>m_data = \<lparr>m_buffer = Some 0, m_capacity = 2\<rparr>, m_size = 2\<rparr>"
  let ?h = "\<lparr>blocks = [Some [Some 1, Some 7]], avail = 62, delete_calls = [], leaked = 0\<rparr> :: nat heap"
  have a: "holds ?v ?h [1, 7]" by (simp add: holds_def Capacity_def)
  have b: "Erase fragile (ptr_add (Vector_begin ?v) 0) (?v, ?h) = Throws element_exception (?v, ?h)"
    by code_simp
  from a b show ?thesis by simp
qed

section \<open>Destruction of a storage block\<close>

text \<open>
  Claim C9, as the code has it. \<^verbatim>\<open>~RawMemory()\<close> calls \<^verbatim>\<open>Deallocate(buffer_)\<close>
  without a test, and that calls \<^verbatim>\<open>operator delete\<close>: on a block without region the
  call is made with the null pointer and releases nothing (regions, available memory
  and the count of lost objects stay as they are); in every case the call that is
  recorded has the pointer of the block as its argument.
\<close>

theorem RawMemory_dtor_calls_delete:
  "(m_buffer m = None \<longrightarrow>
      RawMemory_dtor m h = Returns () (h\<lparr>delete_calls := delete_calls h @ [None]\<rparr>)) \<and>
   (\<forall>h'. RawMemory_dtor m h = Returns () h' \<longrightarrow>
      delete_calls h' = delete_calls h @ [m_buffer m])"
  by (auto simp: RawMemory_dtor_def Deallocate_def operator_delete_def Let_def
           split: option.splits if_splits)

theorem RawMemory_dtor_calls_delete_witness:
  "m_buffer RawMemory_default = None \<and>
   RawMemory_dtor RawMemory_default \<lparr>blocks = [], avail = 8, delete_calls = [], leaked = 0\<rparr>
     = Returns () (\<lparr>blocks = [], avail = 8, delete_calls = [None], leaked = 0\<rparr> :: nat heap) \<and>
   delete_calls (\<lparr>blocks = [], avail = 8, delete_calls = [None], leaked = 0\<rparr> :: nat heap)
     = [m_buffer RawMemory_default]"
  using RawMemory_dtor_calls_delete
          [of RawMemory_default "\<lparr>blocks = [], avail = 8, delete_calls = [], leaked = 0\<rparr> :: nat heap"]
  by (simp add: RawMemory_default_def)

text \<open>
  Claim C9, as it is stated, fails on the default-constructed block (null region,
  capacity 0): its destruction does invoke the deallocation function, once.
\<close>

theorem RawMemory_dtor_null_counterexample:
  "RawMemory_dtor RawMemory_default (\<lparr>blocks = [], avail = 8, delete_calls = [], leaked = 0\<rparr> :: nat heap)
     = Returns () \<lparr>blocks = [], avail = 8, delete_calls = [None], leaked = 0\<rparr> \<and>
   delete_calls (\<lparr>blocks = [], avail = 8, delete_calls = [None], leaked = 0\<rparr> :: nat heap)
     \<noteq> delete_calls (\<lparr>blocks = [], avail = 8, delete_calls = [], leaked = 0\<rparr> :: nat heap)"
  by (simp add: RawMemory_dtor_def Deallocate_def operator_delete_def RawMemory_default_def)

end
